theory Spec2Isabelle
  imports Main "HOL-Library.Word" "HOL-Library.Extended_Nat" "HOL-Library.Multiset"
begin

section \<open>Strings of the JavaScript runtime\<close>

text \<open>
  A JavaScript string is a sequence of UTF-16 code units. A code unit is modelled as a
  natural number (only equality and range tests are ever applied to it), a string as the
  list of its code units. \<open>lit\<close> embeds an ASCII literal of the source.
\<close>

type_synonym jsstring = "nat list"

definition lit :: "string \<Rightarrow> jsstring" where
  "lit s = map of_char s"

text \<open>
  The class \<open>\s\<close> of a regular expression and the characters removed by
  \<open>String.prototype.trim\<close> are the same set: WhiteSpace and LineTerminator of ECMAScript.
\<close>

definition isWhiteSpace :: "nat \<Rightarrow> bool" where
  "isWhiteSpace c \<longleftrightarrow>
     c = 0x09 \<or> c = 0x0A \<or> c = 0x0B \<or> c = 0x0C \<or> c = 0x0D \<or> c = 0x20 \<or> c = 0xA0 \<or>
     c = 0x1680 \<or> (0x2000 \<le> c \<and> c \<le> 0x200A) \<or> c = 0x2028 \<or> c = 0x2029 \<or>
     c = 0x202F \<or> c = 0x205F \<or> c = 0x3000 \<or> c = 0xFEFF"

definition trim :: "jsstring \<Rightarrow> jsstring" where
  "trim s = rev (dropWhile isWhiteSpace (rev (dropWhile isWhiteSpace s)))"

text \<open>\<open>s.replace(/\s+/g, " ")\<close>: every maximal run of white space becomes one space.\<close>

function collapseWhitespace :: "jsstring \<Rightarrow> jsstring" where
  "collapseWhitespace [] = []"
| "collapseWhitespace (c # cs) =
     (if isWhiteSpace c then 0x20 # collapseWhitespace (dropWhile isWhiteSpace cs)
      else c # collapseWhitespace cs)"
  by pat_completeness auto
termination
  by (relation "measure length") (auto simp: length_dropWhile_le less_Suc_eq_le)

text \<open>\<open>s.replace(/[U+0300-U+036F]/g, "")\<close>: the combining diacritical marks are removed.\<close>

definition stripCombiningMarks :: "jsstring \<Rightarrow> jsstring" where
  "stripCombiningMarks s = filter (\<lambda>c. \<not> (0x0300 \<le> c \<and> c \<le> 0x036F)) s"

text \<open>
  \<open>toLowerCase\<close> and \<open>normalize("NFD")\<close> are built-ins of the runtime, driven by the
  Unicode tables; they are parameters of the model, so that every general theorem holds for
  any behaviour of the two.
\<close>

record runtime =
  toLowerCase :: "jsstring \<Rightarrow> jsstring"
  normalizeNFD :: "jsstring \<Rightarrow> jsstring"

text \<open>
  For the concrete examples a runtime is fixed that agrees with ECMAScript on strings whose
  code units all lie below \<open>0x100\<close> (Basic Latin and Latin-1 Supplement): lower-casing
  shifts \<open>A-Z\<close> and \<open>U+00C0-U+00DE\<close> (but not the multiplication sign) by \<open>0x20\<close>, canonical
  decomposition splits a precomposed letter into its base letter and one combining mark.
\<close>

definition latin1LowerUnit :: "nat \<Rightarrow> nat" where
  "latin1LowerUnit c =
     (if (0x41 \<le> c \<and> c \<le> 0x5A) \<or> (0xC0 \<le> c \<and> c \<le> 0xDE \<and> c \<noteq> 0xD7) then c + 0x20 else c)"

definition latin1Decompositions :: "(nat \<times> nat \<times> nat) list" where
  "latin1Decompositions =
     [(0xC0, 0x41, 0x300), (0xC1, 0x41, 0x301), (0xC2, 0x41, 0x302), (0xC3, 0x41, 0x303),
      (0xC4, 0x41, 0x308), (0xC5, 0x41, 0x30A), (0xC7, 0x43, 0x327), (0xC8, 0x45, 0x300),
      (0xC9, 0x45, 0x301), (0xCA, 0x45, 0x302), (0xCB, 0x45, 0x308), (0xCC, 0x49, 0x300),
      (0xCD, 0x49, 0x301), (0xCE, 0x49, 0x302), (0xCF, 0x49, 0x308), (0xD1, 0x4E, 0x303),
      (0xD2, 0x4F, 0x300), (0xD3, 0x4F, 0x301), (0xD4, 0x4F, 0x302), (0xD5, 0x4F, 0x303),
      (0xD6, 0x4F, 0x308), (0xD9, 0x55, 0x300), (0xDA, 0x55, 0x301), (0xDB, 0x55, 0x302),
      (0xDC, 0x55, 0x308), (0xDD, 0x59, 0x301), (0xE0, 0x61, 0x300), (0xE1, 0x61, 0x301),
      (0xE2, 0x61, 0x302), (0xE3, 0x61, 0x303), (0xE4, 0x61, 0x308), (0xE5, 0x61, 0x30A),
      (0xE7, 0x63, 0x327), (0xE8, 0x65, 0x300), (0xE9, 0x65, 0x301), (0xEA, 0x65, 0x302),
      (0xEB, 0x65, 0x308), (0xEC, 0x69, 0x300), (0xED, 0x69, 0x301), (0xEE, 0x69, 0x302),
      (0xEF, 0x69, 0x308), (0xF1, 0x6E, 0x303), (0xF2, 0x6F, 0x300), (0xF3, 0x6F, 0x301),
      (0xF4, 0x6F, 0x302), (0xF5, 0x6F, 0x303), (0xF6, 0x6F, 0x308), (0xF9, 0x75, 0x300),
      (0xFA, 0x75, 0x301), (0xFB, 0x75, 0x302), (0xFC, 0x75, 0x308), (0xFD, 0x79, 0x301),
      (0xFF, 0x79, 0x308)]"

fun decomposition :: "(nat \<times> nat \<times> nat) list \<Rightarrow> nat \<Rightarrow> nat list" where
  "decomposition [] c = [c]"
| "decomposition ((k, base, mark) # rest) c = (if c = k then [base, mark] else decomposition rest c)"

definition latin1DecomposeUnit :: "nat \<Rightarrow> nat list" where
  "latin1DecomposeUnit c = decomposition latin1Decompositions c"

definition latin1Runtime :: runtime where
  "latin1Runtime =
     \<lparr>toLowerCase = map latin1LowerUnit,
      normalizeNFD = (\<lambda>s. concat (map latin1DecomposeUnit s))\<rparr>"

section \<open>Numbers of the JavaScript runtime\<close>

text \<open>
  A number is a double (IEEE 754 binary64); every operation returns the double nearest to
  the exact result, a tie going to the one with an even significand. A double that is not
  negative is modelled by a pair \<open>(m, e)\<close> standing for \<open>m * 2^e\<close>; the operations return
  it with \<open>2^52 \<le> m < 2^53\<close>, and zero as \<open>(0, 0)\<close>. The numbers of the program (counters,
  indices, random values and their products) are far from the limits of the exponent, so
  neither overflow nor subnormal numbers are modelled.
\<close>

type_synonym double = "nat \<times> int"

text \<open>\<open>p / q\<close> rounded to the nearest natural number, a tie going to the even one.\<close>

definition roundHalfEven :: "nat \<Rightarrow> nat \<Rightarrow> nat" where
  "roundHalfEven p q =
     (let d = p div q; r = p mod q
      in if 2 * r < q then d else if q < 2 * r then d + 1 else if even d then d else d + 1)"

text \<open>
  \<open>p / q * 2^e\<close> is rewritten, without changing its value, until \<open>2^52 \<le> p / q < 2^53\<close>.
\<close>

function scaleUp :: "nat \<Rightarrow> nat \<Rightarrow> int \<Rightarrow> nat \<times> nat \<times> int" where
  "scaleUp p q e = (if 0 < p \<and> p < 2 ^ 52 * q then scaleUp (2 * p) q (e - 1) else (p, q, e))"
  by pat_completeness auto
termination
  by (relation "measure (\<lambda>(p, q, e). 2 ^ 52 * q - p)") auto

declare scaleUp.simps [simp del]

function scaleDown :: "nat \<Rightarrow> nat \<Rightarrow> int \<Rightarrow> nat \<times> nat \<times> int" where
  "scaleDown p q e = (if 0 < q \<and> 2 ^ 53 * q \<le> p then scaleDown p (2 * q) (e + 1) else (p, q, e))"
  by pat_completeness auto
termination
  by (relation "measure (\<lambda>(p, q, e). p + 1 - 2 ^ 53 * q)") auto

declare scaleDown.simps [simp del]

text \<open>The double nearest to the positive rational \<open>p / q * 2^e\<close>.\<close>

definition toDouble :: "nat \<Rightarrow> nat \<Rightarrow> int \<Rightarrow> double" where
  "toDouble p q e =
     (let (p1, q1, e1) = scaleUp p q e;
          (p2, q2, e2) = scaleDown p1 q1 e1;
          m = roundHalfEven p2 q2
      in if m = 2 ^ 53 then (2 ^ 52, e2 + 1) else (m, e2))"

text \<open>
  The product of a double with an integer below \<open>2^53\<close> (which is a double exactly), and
  \<open>Math.floor\<close> of a double that is not negative.
\<close>

definition timesInteger :: "double \<Rightarrow> nat \<Rightarrow> double" where
  "timesInteger x n = (case x of (m, e) \<Rightarrow> if m = 0 \<or> n = 0 then (0, 0) else toDouble (n * m) 1 e)"

definition Math_floor :: "double \<Rightarrow> nat" where
  "Math_floor x = (case x of (m, e) \<Rightarrow> if 0 \<le> e then m * 2 ^ nat e else m div 2 ^ nat (- e))"

text \<open>
  \<open>Math.random()\<close> returns a double in \<open>[0, 1)\<close>. A returned value is modelled by its
  53-bit numerator \<open>w\<close>, standing for the double \<open>w * 2^-53\<close>; the random source is the
  infinite sequence of the values still to come, and a call takes the first.
  \<open>floorTimes r n\<close> is \<open>Math.floor(Math.random() * n)\<close>, the floor of the rounded product;
  \<open>lessThanHalf r\<close> is \<open>Math.random() < 0.5\<close>, a comparison of two doubles, which is exact.
\<close>

type_synonym rng = "nat \<Rightarrow> 53 word"

definition Math_random :: "rng \<Rightarrow> 53 word \<times> rng" where
  "Math_random g = (g 0, \<lambda>n. g (Suc n))"

definition floorTimes :: "53 word \<Rightarrow> nat \<Rightarrow> nat" where
  "floorTimes r n = Math_floor (timesInteger (unat r, - 53) n)"

definition lessThanHalf :: "53 word \<Rightarrow> bool" where
  "lessThanHalf r \<longleftrightarrow> unat r < 2 ^ 52"

text \<open>
  \<open>Number.prototype.toString(36)\<close> on a fraction: ECMAScript leaves the digits printed in
  a radix other than 10 to the implementation. The function from a random value to its
  string is a parameter of the generators, so that every theorem about them holds whatever
  the implementation prints.
\<close>

type_synonym numberToString = "53 word \<Rightarrow> jsstring"

section \<open>Matcher (\<open>matchAnswer\<close>, second part of src/services/quiz-loader.ts)\<close>

text \<open>
  The learn command imports \<open>matchAnswer\<close> from \<open>services/text-matcher.ts\<close>; its source is
  the part of \<open>src/services/quiz-loader.ts\<close> after the loader.
\<close>

definition normalizeText :: "runtime \<Rightarrow> jsstring \<Rightarrow> bool \<Rightarrow> jsstring" where
  "normalizeText rt text ia =
     (let normalized = toLowerCase rt (trim text);
          normalized = collapseWhitespace normalized
      in if ia then stripCombiningMarks (normalizeNFD rt normalized) else normalized)"

text \<open>
  \<open>levenshteinDistance\<close> fills a mutable array of arrays. The matrix is an explicit store
  from (row, column) to the cell's content; \<open>None\<close> is a cell never written (\<open>undefined\<close>
  in the source, \<open>NaN\<close> once arithmetic touches it).
\<close>

type_synonym matrix = "nat \<Rightarrow> nat \<Rightarrow> nat option"

definition emptyMatrix :: matrix where
  "emptyMatrix = (\<lambda>i j. None)"

text \<open>\<open>for (let i = 0; i <= b.length; i++) matrix[i] = [i]\<close>\<close>

function initRows :: "nat \<Rightarrow> nat \<Rightarrow> matrix \<Rightarrow> matrix" where
  "initRows blen i m =
     (if i \<le> blen then initRows blen (i + 1) (m(i := (\<lambda>j. None)(0 := Some i))) else m)"
  by pat_completeness auto
termination
  by (relation "measure (\<lambda>(blen, i, m). blen + 1 - i)") auto

declare initRows.simps [simp del]

text \<open>\<open>for (let j = 0; j <= a.length; j++) matrix[0][j] = j\<close>\<close>

function initCols :: "nat \<Rightarrow> nat \<Rightarrow> matrix \<Rightarrow> matrix" where
  "initCols alen j m =
     (if j \<le> alen then initCols alen (j + 1) (m(0 := (m 0)(j := Some j))) else m)"
  by pat_completeness auto
termination
  by (relation "measure (\<lambda>(alen, j, m). alen + 1 - j)") auto

declare initCols.simps [simp del]

text \<open>\<open>Math.min(x + 1, y + 1, z + 1)\<close> on cells; an unwritten cell makes the result \<open>NaN\<close>.\<close>

definition minPlusOne :: "nat option \<Rightarrow> nat option \<Rightarrow> nat option \<Rightarrow> nat option" where
  "minPlusOne x y z =
     (case (x, y, z) of
        (Some u, Some v, Some w) \<Rightarrow> Some (min (u + 1) (min (v + 1) (w + 1)))
      | _ \<Rightarrow> None)"

text \<open>
  The inner loop \<open>for (let j = 1; j <= a.length; j++)\<close> of row \<open>i\<close>. The two indices stay
  within the strings, so \<open>b.charAt(i - 1) === a.charAt(j - 1)\<close> compares two code units.
\<close>

function fillRow :: "'a list \<Rightarrow> 'a list \<Rightarrow> nat \<Rightarrow> nat \<Rightarrow> matrix \<Rightarrow> matrix" where
  "fillRow a b i j m =
     (if j \<le> length a then
        fillRow a b i (j + 1)
          (m(i := (m i)(j :=
             (if b ! (i - 1) = a ! (j - 1) then m (i - 1) (j - 1)
              else minPlusOne (m (i - 1) (j - 1)) (m i (j - 1)) (m (i - 1) j)))))
      else m)"
  by pat_completeness auto
termination
  by (relation "measure (\<lambda>(a, b, i, j, m). length a + 1 - j)") auto

declare fillRow.simps [simp del]

text \<open>The outer loop \<open>for (let i = 1; i <= b.length; i++)\<close>.\<close>

function fillRows :: "'a list \<Rightarrow> 'a list \<Rightarrow> nat \<Rightarrow> matrix \<Rightarrow> matrix" where
  "fillRows a b i m =
     (if i \<le> length b then fillRows a b (i + 1) (fillRow a b i 1 m) else m)"
  by pat_completeness auto
termination
  by (relation "measure (\<lambda>(a, b, i, m). length b + 1 - i)") auto

declare fillRows.simps [simp del]

definition levenshteinDistance :: "'a list \<Rightarrow> 'a list \<Rightarrow> nat option" where
  "levenshteinDistance a b =
     (let m = initRows (length b) 0 emptyMatrix;
          m = initCols (length a) 0 m;
          m = fillRows a b 1 m
      in m (length b) (length a))"

text \<open>
  The optional fields of \<open>MatchOptions\<close>; a missing field takes its default when
  \<open>matchAnswer\<close> destructures the object. \<open>allowTypoDistance\<close> is taken to be an integer.
\<close>

record MatchOptions =
  ignoreCase :: "bool option"
  ignoreAccents :: "bool option"
  allowTypoDistance :: "int option"

text \<open>\<open>distance\<close> starts at \<open>Infinity\<close>; \<open>matchedAnswer\<close> may be absent.\<close>

record MatchResult =
  isCorrect :: bool
  isExact :: bool
  distance :: enat
  matchedAnswer :: "jsstring option"

text \<open>
  The normalisation \<open>matchAnswer\<close> applies to the input and, with the same expression, to
  every accepted answer.
\<close>

definition normalizeForMatch :: "runtime \<Rightarrow> bool \<Rightarrow> bool \<Rightarrow> jsstring \<Rightarrow> jsstring" where
  "normalizeForMatch rt ic ia s = (if ic then normalizeText rt s ia else trim s)"

text \<open>
  The loop \<open>for (const answer of correctAnswers)\<close> with its early return; \<open>best\<close> is
  \<open>bestMatch\<close>. A distance that is not a number compares false and leaves \<open>bestMatch\<close>.
\<close>

fun matchLoop ::
  "runtime \<Rightarrow> bool \<Rightarrow> bool \<Rightarrow> int \<Rightarrow> jsstring \<Rightarrow> MatchResult \<Rightarrow> jsstring list \<Rightarrow> MatchResult"
where
  "matchLoop rt ic ia atd normalizedInput best [] = best"
| "matchLoop rt ic ia atd normalizedInput best (answer # rest) =
     (let normalizedAnswer = normalizeForMatch rt ic ia answer in
      if normalizedInput = normalizedAnswer then
        \<lparr>isCorrect = True, isExact = True, distance = 0, matchedAnswer = Some answer\<rparr>
      else
        (case levenshteinDistance normalizedInput normalizedAnswer of
           None \<Rightarrow> matchLoop rt ic ia atd normalizedInput best rest
         | Some d \<Rightarrow>
             matchLoop rt ic ia atd normalizedInput
               (if enat d < distance best then
                  \<lparr>isCorrect = (int d \<le> atd), isExact = False, distance = enat d,
                   matchedAnswer = (if int d \<le> atd then Some answer else None)\<rparr>
                else best)
               rest))"

text \<open>The destructuring \<open>{ignoreCase = true, ignoreAccents = true, allowTypoDistance = 1}\<close>.\<close>

definition ignoreCaseOf :: "MatchOptions \<Rightarrow> bool" where
  "ignoreCaseOf opts = (case ignoreCase opts of None \<Rightarrow> True | Some v \<Rightarrow> v)"

definition ignoreAccentsOf :: "MatchOptions \<Rightarrow> bool" where
  "ignoreAccentsOf opts = (case ignoreAccents opts of None \<Rightarrow> True | Some v \<Rightarrow> v)"

definition allowTypoDistanceOf :: "MatchOptions \<Rightarrow> int" where
  "allowTypoDistanceOf opts = (case allowTypoDistance opts of None \<Rightarrow> 1 | Some v \<Rightarrow> v)"

definition matchAnswer :: "runtime \<Rightarrow> jsstring \<Rightarrow> jsstring list \<Rightarrow> MatchOptions \<Rightarrow> MatchResult" where
  "matchAnswer rt userInput answers opts =
     (let ic = ignoreCaseOf opts;
          ia = ignoreAccentsOf opts;
          atd = allowTypoDistanceOf opts;
          normalizedInput = normalizeForMatch rt ic ia userInput;
          bestMatch = \<lparr>isCorrect = False, isExact = False, distance = \<infinity>, matchedAnswer = None\<rparr>
      in matchLoop rt ic ia atd normalizedInput bestMatch answers)"

text \<open>
  The classical recurrence of the edit distance, on prefix lengths: \<open>editDistance a b i j\<close>
  is the distance between the first \<open>i\<close> elements of \<open>b\<close> and the first \<open>j\<close> of \<open>a\<close>. It
  is the reference the matrix of \<open>levenshteinDistance\<close> is compared with.
\<close>

fun editDistance :: "'a list \<Rightarrow> 'a list \<Rightarrow> nat \<Rightarrow> nat \<Rightarrow> nat" where
  "editDistance a b 0 j = j"
| "editDistance a b (Suc i) 0 = Suc i"
| "editDistance a b (Suc i) (Suc j) =
     (if b ! i = a ! j then editDistance a b i j
      else min (editDistance a b i j + 1)
             (min (editDistance a b (Suc i) j + 1) (editDistance a b i (Suc j) + 1)))"

definition lev :: "'a list \<Rightarrow> 'a list \<Rightarrow> nat" where
  "lev a b = editDistance a b (length b) (length a)"

text \<open>The invariant of the outer loop: the rows below \<open>i\<close> and the first column are final.\<close>

definition rowsDone :: "'a list \<Rightarrow> 'a list \<Rightarrow> nat \<Rightarrow> matrix \<Rightarrow> bool" where
  "rowsDone a b i m \<longleftrightarrow>
     (\<forall>i' < i. \<forall>j' \<le> length a. m i' j' = Some (editDistance a b i' j')) \<and>
     (\<forall>i' \<le> length b. m i' 0 = Some i')"

text \<open>The record that replaces \<open>bestMatch\<close> when a smaller distance \<open>d\<close> is found.\<close>

definition fuzzyResult :: "int \<Rightarrow> jsstring \<Rightarrow> nat \<Rightarrow> MatchResult" where
  "fuzzyResult atd answer d =
     \<lparr>isCorrect = (int d \<le> atd), isExact = False, distance = enat d,
      matchedAnswer = (if int d \<le> atd then Some answer else None)\<rparr>"

text \<open>
  The normalisation as the specification words it: trim, collapse the runs of white space,
  lower-case if \<open>ignoreCase\<close>, strip the accents if \<open>ignoreAccents\<close>.
\<close>

definition specNormalize :: "runtime \<Rightarrow> bool \<Rightarrow> bool \<Rightarrow> jsstring \<Rightarrow> jsstring" where
  "specNormalize rt ic ia s =
     (let t = collapseWhitespace (trim s);
          t = (if ic then toLowerCase rt t else t)
      in if ia then stripCombiningMarks (normalizeNFD rt t) else t)"

section \<open>Cards and shuffling\<close>

text \<open>
  The fields of a card the engine reads: \<open>id\<close>, \<open>front.text\<close>, \<open>back.text\<close> and
  \<open>back.alternatives\<close> (an array after parsing, empty by default). The fields \<open>front\<close>
  and \<open>back\<close> are \<open>card_front\<close> and \<open>card_back\<close>.
\<close>

record CardFront =
  front_text :: jsstring

record CardBack =
  back_text :: jsstring
  alternatives :: "jsstring list"

record Card =
  card_id :: jsstring
  card_front :: CardFront
  card_back :: CardBack

datatype Direction = FrontToBack | BackToFront

text \<open>
  \<open>shuffle\<close> copies the array and runs \<open>for (let i = result.length - 1; i > 0; i--)\<close>,
  swapping \<open>result[i]\<close> with \<open>result[j]\<close> for \<open>j = Math.floor(Math.random() * (i + 1))\<close>.
\<close>

function shuffleLoop :: "nat \<Rightarrow> 'a list \<Rightarrow> rng \<Rightarrow> 'a list \<times> rng" where
  "shuffleLoop i result g =
     (if 0 < i then
        (let (r, g') = Math_random g;
             j = floorTimes r (i + 1)
         in shuffleLoop (i - 1) (result[i := result ! j, j := result ! i]) g')
      else (result, g))"
  by pat_completeness auto
termination
  by (relation "measure (\<lambda>(i, result, g). i)") auto

declare shuffleLoop.simps [simp del]

definition shuffle :: "'a list \<Rightarrow> rng \<Rightarrow> 'a list \<times> rng" where
  "shuffle array g = shuffleLoop (length array - 1) array g"

text \<open>\<open>Math.random().toString(36).substring(2, 10)\<close>\<close>

definition generateId :: "numberToString \<Rightarrow> rng \<Rightarrow> jsstring \<times> rng" where
  "generateId toString36 g = (let (r, g') = Math_random g in (take 8 (drop 2 (toString36 r)), g'))"

text \<open>The text a card contributes as an answer in a direction.\<close>

definition answerText :: "Direction \<Rightarrow> Card \<Rightarrow> jsstring" where
  "answerText dir c = (if dir = FrontToBack then back_text (card_back c) else front_text (card_front c))"

text \<open>The template literal \<open>What is "..."?\<close> over the prompted side.\<close>

definition promptText :: "Direction \<Rightarrow> Card \<Rightarrow> jsstring" where
  "promptText dir c =
     lit ''What is '' @ [0x22] @
     (if dir = FrontToBack then front_text (card_front c) else back_text (card_back c)) @
     [0x22] @ lit ''?''"

text \<open>
  An option \<open>{id, text, isCorrect}\<close>; the field names are prefixed, \<open>isCorrect\<close> being a
  field of \<open>MatchResult\<close> as well.
\<close>

record QuestionOption =
  option_id :: jsstring
  option_text :: jsstring
  option_isCorrect :: bool

text \<open>
  \<open>wrongAnswers.map((text) => ({id: generateId(), text, isCorrect: false}))\<close>, one call of
  \<open>generateId\<close> per element, in order.
\<close>

fun wrongOptions :: "numberToString \<Rightarrow> jsstring list \<Rightarrow> rng \<Rightarrow> QuestionOption list \<times> rng" where
  "wrongOptions toString36 [] g = ([], g)"
| "wrongOptions toString36 (t # ts) g =
     (let (i, g1) = generateId toString36 g;
          (rest, g2) = wrongOptions toString36 ts g1
      in (\<lparr>option_id = i, option_text = t, option_isCorrect = False\<rparr> # rest, g2))"

text \<open>
  The array literal of the options: the correct option first (its \<open>generateId\<close> is called
  first), then the wrong ones.
\<close>

definition buildOptions ::
  "numberToString \<Rightarrow> jsstring \<Rightarrow> jsstring list \<Rightarrow> rng \<Rightarrow> QuestionOption list \<times> rng" where
  "buildOptions toString36 correctAnswer wrongAnswers g =
     (let (i, g1) = generateId toString36 g;
          (wrong, g2) = wrongOptions toString36 wrongAnswers g1
      in (\<lparr>option_id = i, option_text = correctAnswer, option_isCorrect = True\<rparr> # wrong, g2))"

section \<open>Question generation of the learn command (second part of bin/tuizlet.js)\<close>

datatype QuestionMode = MultipleChoice | TypeAnswer

datatype LearnMode = LearnMultipleChoice | LearnTypeAnswer | Mixed

record Question =
  card :: Card
  prompt :: jsstring
  correctAnswers :: "jsstring list"
  direction :: Direction
  mode :: QuestionMode
  options :: "QuestionOption list option"

definition createQuestion ::
  "numberToString \<Rightarrow> Card \<Rightarrow> Card list \<Rightarrow> Direction \<Rightarrow> QuestionMode \<Rightarrow> rng \<Rightarrow> Question \<times> rng" where
  "createQuestion toString36 c allCards dir md g =
     (let correctAnswer = (if dir = FrontToBack then back_text (card_back c) else front_text (card_front c));
          alts = (if dir = FrontToBack then alternatives (card_back c) else []);
          question =
            \<lparr>card = c, prompt = promptText dir c, correctAnswers = correctAnswer # alts,
             direction = dir, mode = md, options = None\<rparr>
      in if md = MultipleChoice then
           (let otherCards = filter (\<lambda>x. card_id x \<noteq> card_id c) allCards;
                (shuffled, g1) = shuffle otherCards g;
                wrongCards = take (min 3 (length otherCards)) shuffled;
                wrongAnswers = map (answerText dir) wrongCards;
                (opts, g2) = buildOptions toString36 correctAnswer wrongAnswers g1;
                (shuffledOptions, g3) = shuffle opts g2
            in (question\<lparr>options := Some shuffledOptions\<rparr>, g3))
         else (question, g))"

text \<open>
  The mode of one question: in mixed mode \<open>Math.random() < 0.5 ? "multiple-choice" :
  "type-answer"\<close>, otherwise the mode of the session, and no random value is drawn.
\<close>

definition pickMode :: "LearnMode \<Rightarrow> rng \<Rightarrow> QuestionMode \<times> rng" where
  "pickMode lm g =
     (case lm of
        Mixed \<Rightarrow> (let (r, g') = Math_random g
                  in (if lessThanHalf r then MultipleChoice else TypeAnswer, g'))
      | LearnMultipleChoice \<Rightarrow> (MultipleChoice, g)
      | LearnTypeAnswer \<Rightarrow> (TypeAnswer, g))"

text \<open>
  The loop \<open>for (const card of shuffledCards)\<close> of \<open>generateQuestions\<close>; \<open>questions\<close> is the
  array pushed to.
\<close>

fun generateQuestionsLoop ::
  "numberToString \<Rightarrow> LearnMode \<Rightarrow> Card list \<Rightarrow> Card list \<Rightarrow> Question list \<Rightarrow> rng \<Rightarrow> Question list \<times> rng"
where
  "generateQuestionsLoop toString36 lm shuffledCards [] questions g = (questions, g)"
| "generateQuestionsLoop toString36 lm shuffledCards (c # rest) questions g =
     (let (questionMode, g1) = pickMode lm g;
          (q1, g2) = createQuestion toString36 c shuffledCards FrontToBack questionMode g1;
          (backMode, g3) = pickMode lm g2;
          (q2, g4) = createQuestion toString36 c shuffledCards BackToFront backMode g3
      in generateQuestionsLoop toString36 lm shuffledCards rest (questions @ [q1, q2]) g4)"

definition generateQuestions :: "numberToString \<Rightarrow> Card list \<Rightarrow> LearnMode \<Rightarrow> rng \<Rightarrow> Question list \<times> rng" where
  "generateQuestions toString36 cards lm g =
     (let (shuffledCards, g1) = shuffle cards g;
          (questions, g2) = generateQuestionsLoop toString36 lm shuffledCards shuffledCards [] g1
      in shuffle questions g2)"

section \<open>The multiple-choice generator (\<open>generateMultipleChoiceQuestionsFromCards\<close>)\<close>

text \<open>
  \<open>MultipleChoiceQuestion\<close> (its \<open>type\<close> is the constant \<open>"multiple-choice"\<close>) and
  \<open>GeneratedQuestion\<close>; the field names are prefixed where \<open>Question\<close> has the same.
\<close>

record MultipleChoiceQuestion =
  mc_cardId :: jsstring
  mc_prompt :: jsstring
  mc_options :: "QuestionOption list"
  mc_allowMultiple :: bool

record GeneratedQuestion =
  gq_question :: MultipleChoiceQuestion
  gq_card :: Card
  gq_direction :: Direction

text \<open>
  The optional fields of \<open>QuestionGeneratorOptions\<close>; \<open>numOptions\<close> is taken to be an
  integer. \<open>shouldShuffle\<close> is the field \<open>shuffle\<close>, under the name the function binds it to.
\<close>

record QuestionGeneratorOptions =
  numOptions :: "int option"
  bidirectional :: "bool option"
  shouldShuffle :: "bool option"

definition numOptionsOf :: "QuestionGeneratorOptions \<Rightarrow> int" where
  "numOptionsOf opts = (case numOptions opts of None \<Rightarrow> 4 | Some v \<Rightarrow> v)"

definition bidirectionalOf :: "QuestionGeneratorOptions \<Rightarrow> bool" where
  "bidirectionalOf opts = (case bidirectional opts of None \<Rightarrow> True | Some v \<Rightarrow> v)"

definition shouldShuffleOf :: "QuestionGeneratorOptions \<Rightarrow> bool" where
  "shouldShuffleOf opts = (case shouldShuffle opts of None \<Rightarrow> True | Some v \<Rightarrow> v)"

text \<open>
  \<open>xs.slice(0, e)\<close> for an integer \<open>e\<close>: a negative end counts from the end of the array.
\<close>

definition sliceTo :: "'a list \<Rightarrow> int \<Rightarrow> 'a list" where
  "sliceTo xs e = (if e < 0 then take (nat (int (length xs) + e)) xs else take (nat e) xs)"

definition generateQuestion ::
  "numberToString \<Rightarrow> Card \<Rightarrow> Card list \<Rightarrow> Direction \<Rightarrow> int \<Rightarrow> rng \<Rightarrow> GeneratedQuestion \<times> rng" where
  "generateQuestion toString36 targetCard allCards dir n g =
     (let correctAnswer =
            (if dir = FrontToBack then back_text (card_back targetCard) else front_text (card_front targetCard));
          otherCards = filter (\<lambda>x. card_id x \<noteq> card_id targetCard) allCards;
          (shuffled, g1) = shuffle otherCards g;
          wrongCards = sliceTo shuffled (n - 1);
          wrongAnswers = map (answerText dir) wrongCards;
          (opts, g2) = buildOptions toString36 correctAnswer wrongAnswers g1;
          (shuffledOptions, g3) = shuffle opts g2;
          question =
            \<lparr>mc_cardId = card_id targetCard, mc_prompt = promptText dir targetCard,
             mc_options = shuffledOptions, mc_allowMultiple = False\<rparr>
      in (\<lparr>gq_question = question, gq_card = targetCard, gq_direction = dir\<rparr>, g3))"

text \<open>The loop \<open>for (const card of cardList)\<close>.\<close>

fun generateMultipleChoiceLoop ::
  "numberToString \<Rightarrow> int \<Rightarrow> bool \<Rightarrow> Card list \<Rightarrow> Card list \<Rightarrow> GeneratedQuestion list \<Rightarrow> rng \<Rightarrow>
     GeneratedQuestion list \<times> rng"
where
  "generateMultipleChoiceLoop toString36 n bidir cardList [] questions g = (questions, g)"
| "generateMultipleChoiceLoop toString36 n bidir cardList (c # rest) questions g =
     (let (q1, g1) = generateQuestion toString36 c cardList FrontToBack n g
      in if bidir then
           (let (q2, g2) = generateQuestion toString36 c cardList BackToFront n g1
            in generateMultipleChoiceLoop toString36 n bidir cardList rest (questions @ [q1, q2]) g2)
         else generateMultipleChoiceLoop toString36 n bidir cardList rest (questions @ [q1]) g1)"

definition generateMultipleChoiceQuestionsFromCards ::
  "numberToString \<Rightarrow> Card list \<Rightarrow> QuestionGeneratorOptions \<Rightarrow> rng \<Rightarrow> GeneratedQuestion list \<times> rng" where
  "generateMultipleChoiceQuestionsFromCards toString36 cards opts g =
     (let (cardList, g1) = (if shouldShuffleOf opts then shuffle cards g else (cards, g));
          (questions, g2) =
            generateMultipleChoiceLoop toString36 (numOptionsOf opts) (bidirectionalOf opts) cardList cardList [] g1
      in if shouldShuffleOf opts then shuffle questions g2 else (questions, g2))"

section \<open>The session of the learn command (\<open>runLearnCommand\<close>, second part of bin/tuizlet.js)\<close>

text \<open>
  A key event: its \<open>name\<close> and the modifiers \<open>ctrl\<close> and \<open>meta\<close> are all the handlers read.
\<close>

record KeyEvent =
  key_name :: jsstring
  key_ctrl :: bool
  key_meta :: bool

text \<open>
  \<open>LearnState\<close>. \<open>selectedOption\<close> starts at \<open>-1\<close>; \<open>correctAnswer\<close> is set from
  \<open>correctAnswers[0]\<close>, which is \<open>undefined\<close> (\<open>None\<close>) on an empty array.
\<close>

record LearnState =
  questions :: "Question list"
  currentIndex :: nat
  selectedOption :: int
  typedAnswer :: jsstring
  answered :: bool
  correct :: nat
  incorrect :: nat
  showingResult :: bool
  lastAnswerCorrect :: bool
  correctAnswer :: "jsstring option"

text \<open>The state \<open>runLearnCommand\<close> starts from.\<close>

definition initialState :: "Question list \<Rightarrow> LearnState" where
  "initialState qs =
     \<lparr>questions = qs, currentIndex = 0, selectedOption = - 1, typedAnswer = [],
      answered = False, correct = 0, incorrect = 0, showingResult = False,
      lastAnswerCorrect = False, correctAnswer = Some []\<rparr>"

text \<open>\<open>array[i]\<close>, which is \<open>undefined\<close> (\<open>None\<close>) out of range.\<close>

definition element :: "'a list \<Rightarrow> nat \<Rightarrow> 'a option" where
  "element xs i = (if i < length xs then Some (xs ! i) else None)"

text \<open>
  The relational operators on two strings compare them code unit by code unit:
  \<open>a < b\<close> is \<open>stringLess a b\<close>, \<open>a >= b\<close> its negation, \<open>a <= b\<close> is \<open>\<not> stringLess b a\<close>.
\<close>

fun stringLess :: "jsstring \<Rightarrow> jsstring \<Rightarrow> bool" where
  "stringLess [] [] = False"
| "stringLess [] (y # ys) = True"
| "stringLess (x # xs) [] = False"
| "stringLess (x # xs) (y # ys) = (x < y \<or> (x = y \<and> stringLess xs ys))"

definition between :: "jsstring \<Rightarrow> jsstring \<Rightarrow> jsstring \<Rightarrow> bool" where
  "between lo hi s \<longleftrightarrow> \<not> stringLess s lo \<and> \<not> stringLess hi s"

text \<open>
  \<open>parseInt\<close> on a string that starts with a decimal digit: the value of the longest run of
  digits at its start; \<open>None\<close> is \<open>NaN\<close>, the result when the string starts otherwise. (White
  space, a sign or a prefix \<open>0x\<close> at the start, which \<open>parseInt\<close> also accepts, cannot occur
  where the handler calls it: the string then starts with a digit from 1 to 4.) The value is
  an unbounded integer; the runtime rounds a value above \<open>2^53\<close>, which is far above any
  number of options.
\<close>

definition isDigit :: "nat \<Rightarrow> bool" where
  "isDigit c \<longleftrightarrow> 0x30 \<le> c \<and> c \<le> 0x39"

definition digitsValue :: "jsstring \<Rightarrow> int" where
  "digitsValue ds = foldl (\<lambda>v c. 10 * v + (int c - 0x30)) 0 ds"

definition parseInt :: "jsstring \<Rightarrow> int option" where
  "parseInt s = (case takeWhile isDigit s of [] \<Rightarrow> None | ds \<Rightarrow> Some (digitsValue ds))"

text \<open>\<open>s.charCodeAt(0)\<close>, \<open>NaN\<close> (\<open>None\<close>) on the empty string.\<close>

definition charCodeAt0 :: "jsstring \<Rightarrow> int option" where
  "charCodeAt0 s = (case s of [] \<Rightarrow> None | c # _ \<Rightarrow> Some (int c))"

text \<open>\<open>question.options?.length ?? 0\<close> and \<open>question.options\<close> as an array.\<close>

definition optionsOf :: "Question \<Rightarrow> QuestionOption list" where
  "optionsOf q = (case options q of None \<Rightarrow> [] | Some os \<Rightarrow> os)"

text \<open>
  The last block of \<open>handleMultipleChoiceKey\<close>, reached with \<open>optionIndex\<close> set by the chain
  of tests before it: \<open>if (optionIndex >= 0 && optionIndex < numOptions && !state.answered)\<close>.
  A comparison with \<open>NaN\<close> is false.
\<close>

definition confirmOption :: "LearnState \<Rightarrow> int option \<Rightarrow> LearnState" where
  "confirmOption state optionIndex =
     (let currentQuestion = questions state ! currentIndex state;
          numOptions = int (length (optionsOf currentQuestion))
      in case optionIndex of
           None \<Rightarrow> state
         | Some k \<Rightarrow>
             if 0 \<le> k \<and> k < numOptions \<and> \<not> answered state then
               (let selectedOpt = optionsOf currentQuestion ! nat k
                in state
                   \<lparr>selectedOption := k,
                    answered := True,
                    lastAnswerCorrect := option_isCorrect selectedOpt,
                    correctAnswer := element (correctAnswers currentQuestion) 0,
                    correct := (if option_isCorrect selectedOpt then correct state + 1 else correct state),
                    incorrect :=
                      (if option_isCorrect selectedOpt then incorrect state else incorrect state + 1),
                    showingResult := True\<rparr>)
             else state)"

definition handleMultipleChoiceKey :: "runtime \<Rightarrow> KeyEvent \<Rightarrow> LearnState \<Rightarrow> LearnState" where
  "handleMultipleChoiceKey rt event state =
     (let keyName = toLowerCase rt (key_name event);
          currentQuestion = questions state ! currentIndex state;
          numOptions = int (length (optionsOf currentQuestion))
      in if between (lit ''1'') (lit ''4'') keyName then
           confirmOption state (map_option (\<lambda>v. v - 1) (parseInt keyName))
         else if between (lit ''a'') (lit ''d'') keyName then
           confirmOption state (map_option (\<lambda>v. v - 0x61) (charCodeAt0 keyName))
         else if keyName = lit ''up'' then
           state\<lparr>selectedOption :=
             (if selectedOption state \<le> 0 then numOptions - 1 else selectedOption state - 1)\<rparr>
         else if keyName = lit ''down'' then
           state\<lparr>selectedOption :=
             (if selectedOption state \<ge> numOptions - 1 then 0 else selectedOption state + 1)\<rparr>
         else if (keyName = lit ''return'' \<or> keyName = lit ''enter'') \<and> selectedOption state \<ge> 0 then
           confirmOption state (Some (selectedOption state))
         else confirmOption state (Some (- 1)))"

definition handleTypeAnswerKey :: "runtime \<Rightarrow> KeyEvent \<Rightarrow> LearnState \<Rightarrow> LearnState" where
  "handleTypeAnswerKey rt event state =
     (let keyName = toLowerCase rt (key_name event);
          currentQuestion = questions state ! currentIndex state
      in if keyName = lit ''backspace'' then
           state\<lparr>typedAnswer := butlast (typedAnswer state)\<rparr>
         else if keyName = lit ''return'' \<or> keyName = lit ''enter'' then
           (if length (trim (typedAnswer state)) > 0 then
              (let result = matchAnswer rt (typedAnswer state) (correctAnswers currentQuestion)
                              \<lparr>ignoreCase = Some True, ignoreAccents = Some True,
                               allowTypoDistance = Some 1\<rparr>
               in state
                  \<lparr>answered := True,
                   lastAnswerCorrect := isCorrect result,
                   correctAnswer := element (correctAnswers currentQuestion) 0,
                   correct := (if isCorrect result then correct state + 1 else correct state),
                   incorrect := (if isCorrect result then incorrect state else incorrect state + 1),
                   showingResult := True\<rparr>)
            else state)
         else if length (key_name event) = 1 \<and> \<not> key_ctrl event \<and> \<not> key_meta event then
           state\<lparr>typedAnswer := typedAnswer state @ key_name event\<rparr>
         else if keyName = lit ''space'' then
           state\<lparr>typedAnswer := typedAnswer state @ lit '' ''\<rparr>
         else state)"

text \<open>
  \<open>handleKey\<close> of \<open>runLearnCommand\<close>. When the session is complete the key resolves the
  promise of the command and the state is left as it is; rendering reads the state only.
\<close>

definition handleKey :: "runtime \<Rightarrow> KeyEvent \<Rightarrow> LearnState \<Rightarrow> LearnState" where
  "handleKey rt event state =
     (let currentQuestion = element (questions state) (currentIndex state)
      in if currentIndex state \<ge> length (questions state) then state
         else if showingResult state then
           state\<lparr>showingResult := False, currentIndex := currentIndex state + 1,
                 selectedOption := - 1, typedAnswer := [], answered := False\<rparr>
         else
           (case currentQuestion of
              None \<Rightarrow> state
            | Some q \<Rightarrow>
                if mode q = MultipleChoice then handleMultipleChoiceKey rt event state
                else handleTypeAnswerKey rt event state))"


text \<open>
  What holds of every state a session reaches: the counters count the questions passed and
  the one whose result is showing.
\<close>

definition sessionInvariant :: "LearnState \<Rightarrow> bool" where
  "sessionInvariant s \<longleftrightarrow>
     currentIndex s \<le> length (questions s) \<and>
     correct s + incorrect s = currentIndex s + (if showingResult s then 1 else 0) \<and>
     (if showingResult s then currentIndex s < length (questions s) else True) \<and>
     answered s = showingResult s"

text \<open>
  The two shapes of a step taken while a question awaits its answer: a quiet step leaves the
  question, the counters and the flags as they are; a final step answers the question and
  adds one to exactly one counter.
\<close>

definition quietStep :: "LearnState \<Rightarrow> LearnState \<Rightarrow> bool" where
  "quietStep s s' \<longleftrightarrow>
     questions s' = questions s \<and> currentIndex s' = currentIndex s \<and>
     answered s' = answered s \<and> showingResult s' = showingResult s \<and>
     correct s' = correct s \<and> incorrect s' = incorrect s"

definition finalStep :: "LearnState \<Rightarrow> LearnState \<Rightarrow> bool" where
  "finalStep s s' \<longleftrightarrow>
     questions s' = questions s \<and> currentIndex s' = currentIndex s \<and>
     answered s' \<and> showingResult s' \<and>
     ((correct s' = correct s + 1 \<and> incorrect s' = incorrect s) \<or>
      (correct s' = correct s \<and> incorrect s' = incorrect s + 1))"

text \<open>
  The value \<open>optionIndex\<close> has when \<open>handleMultipleChoiceKey\<close> reaches its last block, that
  is for every key but \<open>up\<close> and \<open>down\<close>; \<open>selected\<close> is \<open>state.selectedOption\<close>.
\<close>

definition requestedOption :: "jsstring \<Rightarrow> int \<Rightarrow> int option" where
  "requestedOption keyName selected =
     (if between (lit ''1'') (lit ''4'') keyName then map_option (\<lambda>v. v - 1) (parseInt keyName)
      else if between (lit ''a'') (lit ''d'') keyName then
        map_option (\<lambda>v. v - 0x61) (charCodeAt0 keyName)
      else if (keyName = lit ''return'' \<or> keyName = lit ''enter'') \<and> selected \<ge> 0 then Some selected
      else Some (- 1))"

text \<open>A card, two questions on it and key events, for the concrete sessions below.\<close>

definition exampleCard :: Card where
  "exampleCard =
     \<lparr>card_id = lit ''c1'', card_front = \<lparr>front_text = lit ''hello''\<rparr>,
      card_back = \<lparr>back_text = lit ''hola'', alternatives = [lit ''buenas'']\<rparr>\<rparr>"

definition typedQuestion :: Question where
  "typedQuestion =
     \<lparr>card = exampleCard, prompt = promptText FrontToBack exampleCard,
      correctAnswers = [lit ''hola'', lit ''buenas''], direction = FrontToBack,
      mode = TypeAnswer, options = None\<rparr>"

definition choiceQuestion :: Question where
  "choiceQuestion =
     \<lparr>card = exampleCard, prompt = promptText FrontToBack exampleCard,
      correctAnswers = [lit ''hola'', lit ''buenas''], direction = FrontToBack,
      mode = MultipleChoice,
      options = Some [\<lparr>option_id = lit ''k3'', option_text = lit ''adios'', option_isCorrect = False\<rparr>,
                      \<lparr>option_id = lit ''p7'', option_text = lit ''hola'', option_isCorrect = True\<rparr>]\<rparr>"

definition key :: "string \<Rightarrow> KeyEvent" where
  "key s = \<lparr>key_name = lit s, key_ctrl = False, key_meta = False\<rparr>"

section \<open>The summary of a finished session (\<open>renderComplete\<close>)\<close>

text \<open>
  \<open>Math.round((state.correct / total) * 100)\<close> is computed on doubles. \<open>c / t\<close> for two
  counters (integers below \<open>2^53\<close>, which are doubles exactly) with \<open>t > 0\<close>:
\<close>

definition divideCounters :: "nat \<Rightarrow> nat \<Rightarrow> double" where
  "divideCounters c t = (if c = 0 then (0, 0) else toDouble c t 0)"

text \<open>
  \<open>Math.round\<close> of a double that is not negative: the nearest integer, a tie going up, that is
  \<open>floor(x + 1/2)\<close> in exact arithmetic.
\<close>

definition Math_round :: "double \<Rightarrow> nat" where
  "Math_round x =
     (case x of (m, e) \<Rightarrow>
        if 0 \<le> e then m * 2 ^ nat e
        else (m + 2 ^ (nat (- e) - 1)) div 2 ^ nat (- e))"

definition total :: "LearnState \<Rightarrow> nat" where
  "total state = correct state + incorrect state"

definition percentage :: "LearnState \<Rightarrow> nat" where
  "percentage state =
     (if total state > 0 then Math_round (timesInteger (divideCounters (correct state) (total state)) 100)
      else 0)"

text \<open>
  The percentage as the specification words it, \<open>round(100 * correct / total)\<close> for
  \<open>total > 0\<close> and \<open>0\<close> otherwise, in exact arithmetic with a tie going up.
\<close>

definition specPercentage :: "nat \<Rightarrow> nat \<Rightarrow> nat" where
  "specPercentage c t = (if t > 0 then (200 * c + t) div (2 * t) else 0)"

section \<open>Verification\<close>

subsection \<open>The matrix of \<open>levenshteinDistance\<close> computes the recurrence\<close>

lemma editDistance_col0: "editDistance a b i 0 = i"
  by (cases i) simp_all

lemma initRows_cell:
  "initRows n i m i' j' =
     (if i \<le> i' \<and> i' \<le> n then (if j' = 0 then Some i' else None) else m i' j')"
proof (induction n i m rule: initRows.induct)
  case (1 blen i m)
  show ?case
  proof (cases "i \<le> blen")
    case True
    have step: "initRows blen i m = initRows blen (i + 1) (m(i := (\<lambda>j. None)(0 := Some i)))"
      by (subst initRows.simps) (simp only: True if_True)
    show ?thesis
      unfolding step "1.IH" [OF True] using True by auto
  next
    case False
    have stop: "initRows blen i m = m"
      by (subst initRows.simps) (simp only: False if_False)
    show ?thesis
      unfolding stop using False by auto
  qed
qed

lemma initCols_cell:
  "initCols n j m i' j' =
     (if i' = 0 \<and> j \<le> j' \<and> j' \<le> n then Some j' else m i' j')"
proof (induction n j m rule: initCols.induct)
  case (1 alen j m)
  show ?case
  proof (cases "j \<le> alen")
    case True
    have step: "initCols alen j m = initCols alen (j + 1) (m(0 := (m 0)(j := Some j)))"
      by (subst initCols.simps) (simp only: True if_True)
    show ?thesis
      unfolding step "1.IH" [OF True] using True by auto
  next
    case False
    have stop: "initCols alen j m = m"
      by (subst initCols.simps) (simp only: False if_False)
    show ?thesis
      unfolding stop using False by auto
  qed
qed

lemma fillRow_step:
  "j \<le> length a \<Longrightarrow>
   fillRow a b i j m =
     fillRow a b i (j + 1)
       (m(i := (m i)(j :=
          (if b ! (i - 1) = a ! (j - 1) then m (i - 1) (j - 1)
           else minPlusOne (m (i - 1) (j - 1)) (m i (j - 1)) (m (i - 1) j)))))"
  by (subst fillRow.simps) (simp only: if_True)

lemma fillRow_stop: "\<not> j \<le> length a \<Longrightarrow> fillRow a b i j m = m"
  by (subst fillRow.simps) (simp only: if_False)

lemma fillRows_step:
  "i \<le> length b \<Longrightarrow> fillRows a b i m = fillRows a b (i + 1) (fillRow a b i 1 m)"
  by (subst fillRows.simps) (simp only: if_True)

lemma fillRows_stop: "\<not> i \<le> length b \<Longrightarrow> fillRows a b i m = m"
  by (subst fillRows.simps) (simp only: if_False)

lemma fillRow_other: "i' \<noteq> i \<Longrightarrow> fillRow a b i j m i' = m i'"
proof (induction a b i j m rule: fillRow.induct)
  case (1 a b i j m)
  show ?case
  proof (cases "j \<le> length a")
    case True
    show ?thesis
      unfolding fillRow_step [OF True] "1.IH" [OF True "1.prems"] using "1.prems" by simp
  next
    case False
    then show ?thesis by (simp add: fillRow_stop)
  qed
qed

lemma fillRow_cell:
  assumes "0 < i" "0 < j"
    and "\<forall>j' \<le> length a. m (i - 1) j' = Some (editDistance a b (i - 1) j')"
    and "\<forall>j' < j. m i j' = Some (editDistance a b i j')"
    and "j' \<le> length a"
  shows "fillRow a b i j m i j' = Some (editDistance a b i j')"
  using assms
proof (induction a b i j m rule: fillRow.induct)
  case (1 a b i j m)
  show ?case
  proof (cases "j \<le> length a")
    case True
    let ?v = "(if b ! (i - 1) = a ! (j - 1) then m (i - 1) (j - 1)
              else minPlusOne (m (i - 1) (j - 1)) (m i (j - 1)) (m (i - 1) j))"
    let ?m = "m(i := (m i)(j := ?v))"
    obtain i0 j0 where ij: "i = Suc i0" "j = Suc j0"
      using "1.prems"(1,2) by (cases i; cases j) auto
    have d: "m (i - 1) (j - 1) = Some (editDistance a b i0 j0)"
      using "1.prems"(3) True ij by simp
    have l: "m i (j - 1) = Some (editDistance a b i j0)"
      using "1.prems"(4) ij by simp
    have u: "m (i - 1) j = Some (editDistance a b i0 j)"
      using "1.prems"(3) True ij by simp
    have v: "?v = Some (editDistance a b i j)"
      using d l u ij by (simp add: minPlusOne_def)
    have "fillRow a b i (j + 1) ?m i j' = Some (editDistance a b i j')"
    proof (rule "1.IH" [OF True])
      show "0 < i" by fact
      show "0 < j + 1" by simp
      show "\<forall>j'\<le>length a. ?m (i - 1) j' = Some (editDistance a b (i - 1) j')"
        using "1.prems"(3) ij by simp
      show "\<forall>j'<j + 1. ?m i j' = Some (editDistance a b i j')"
        using "1.prems"(4) v by (auto simp: less_Suc_eq)
      show "j' \<le> length a" by fact
    qed
    then show ?thesis unfolding fillRow_step [OF True] .
  next
    case False
    then have "j' < j" using "1.prems"(5) by simp
    then show ?thesis using "1.prems"(4) by (simp add: fillRow_stop [OF False])
  qed
qed

lemma fillRows_done:
  assumes "0 < i" "i \<le> length b + 1" "rowsDone a b i m"
  shows "rowsDone a b (length b + 1) (fillRows a b i m)"
  using assms
proof (induction a b i m rule: fillRows.induct)
  case (1 a b i m)
  show ?case
  proof (cases "i \<le> length b")
    case True
    let ?m = "fillRow a b i 1 m"
    have prev: "\<forall>j' \<le> length a. m (i - 1) j' = Some (editDistance a b (i - 1) j')"
      using "1.prems"(1,3) unfolding rowsDone_def by simp
    have first: "\<forall>j' < 1. m i j' = Some (editDistance a b i j')"
      using "1.prems"(3) True unfolding rowsDone_def by (simp add: editDistance_col0)
    have row: "\<forall>j' \<le> length a. ?m i j' = Some (editDistance a b i j')"
    proof (intro allI impI)
      fix j' assume "j' \<le> length a"
      then show "?m i j' = Some (editDistance a b i j')"
        by (rule fillRow_cell [OF "1.prems"(1) zero_less_one prev first])
    qed
    have old: "\<And>i' j'. i' < i \<Longrightarrow> j' \<le> length a \<Longrightarrow> m i' j' = Some (editDistance a b i' j')"
      using "1.prems"(3) unfolding rowsDone_def by blast
    have col: "\<And>i'. i' \<le> length b \<Longrightarrow> m i' 0 = Some i'"
      using "1.prems"(3) unfolding rowsDone_def by blast
    have "rowsDone a b (i + 1) ?m"
      unfolding rowsDone_def
    proof (intro conjI allI impI)
      fix i' j' assume *: "i' < i + 1" "j' \<le> length a"
      show "?m i' j' = Some (editDistance a b i' j')"
      proof (cases "i' = i")
        case True
        then show ?thesis using row * by simp
      next
        case False
        then have "i' < i" using * by simp
        then show ?thesis using False old [OF _ *(2)] by (simp add: fillRow_other)
      qed
    next
      fix i' assume *: "i' \<le> length b"
      show "?m i' 0 = Some i'"
      proof (cases "i' = i")
        case True
        then show ?thesis using row by (simp add: editDistance_col0)
      next
        case False
        then show ?thesis using col [OF *] by (simp add: fillRow_other)
      qed
    qed
    then have "rowsDone a b (length b + 1) (fillRows a b (i + 1) ?m)"
      using "1.IH" [OF True] True by simp
    then show ?thesis unfolding fillRows_step [OF True] .
  next
    case False
    then have "i = length b + 1" using "1.prems"(2) by simp
    then show ?thesis using "1.prems"(3) unfolding fillRows_stop [OF False] by simp
  qed
qed

lemma levenshteinDistance_lev: "levenshteinDistance a b = Some (lev a b)"
proof -
  let ?m = "initCols (length a) 0 (initRows (length b) 0 emptyMatrix)"
  have "rowsDone a b 1 ?m"
    by (auto simp: rowsDone_def initCols_cell initRows_cell)
  then have "rowsDone a b (length b + 1) (fillRows a b 1 ?m)"
    by (intro fillRows_done) simp_all
  then show ?thesis
    by (simp add: levenshteinDistance_def rowsDone_def Let_def lev_def)
qed


subsection \<open>The loop of \<open>matchAnswer\<close>\<close>

lemma matchLoop_exact:
  "find (\<lambda>a. normalizedInput = normalizeForMatch rt ic ia a) answers = Some a \<Longrightarrow>
   matchLoop rt ic ia atd normalizedInput best answers =
     \<lparr>isCorrect = True, isExact = True, distance = 0, matchedAnswer = Some a\<rparr>"
proof (induction answers arbitrary: best)
  case Nil
  then show ?case by simp
next
  case (Cons x xs)
  show ?case
  proof (cases "normalizedInput = normalizeForMatch rt ic ia x")
    case True
    then show ?thesis using Cons.prems by simp
  next
    case False
    then have "find (\<lambda>a. normalizedInput = normalizeForMatch rt ic ia a) xs = Some a"
      using Cons.prems by simp
    then show ?thesis
      using False by (simp add: Cons.IH levenshteinDistance_lev)
  qed
qed

lemma matchLoop_fuzzy:
  assumes "\<forall>a \<in> set answers. normalizedInput \<noteq> normalizeForMatch rt ic ia a"
  shows
    "(matchLoop rt ic ia atd normalizedInput best answers = best \<and>
      (\<forall>a \<in> set answers. distance best \<le> enat (lev normalizedInput (normalizeForMatch rt ic ia a)))) \<or>
     (\<exists>a \<in> set answers.
        matchLoop rt ic ia atd normalizedInput best answers =
          fuzzyResult atd a (lev normalizedInput (normalizeForMatch rt ic ia a)) \<and>
        enat (lev normalizedInput (normalizeForMatch rt ic ia a)) < distance best \<and>
        (\<forall>a' \<in> set answers.
           lev normalizedInput (normalizeForMatch rt ic ia a) \<le>
           lev normalizedInput (normalizeForMatch rt ic ia a')))"
  using assms
proof (induction answers arbitrary: best)
  case Nil
  then show ?case by simp
next
  case (Cons x xs)
  let ?d = "\<lambda>a. lev normalizedInput (normalizeForMatch rt ic ia a)"
  let ?best' = "if enat (?d x) < distance best then fuzzyResult atd x (?d x) else best"
  have ne: "normalizedInput \<noteq> normalizeForMatch rt ic ia x"
    and rest: "\<forall>a \<in> set xs. normalizedInput \<noteq> normalizeForMatch rt ic ia a"
    using Cons.prems by simp_all
  have step: "matchLoop rt ic ia atd normalizedInput best (x # xs) =
              matchLoop rt ic ia atd normalizedInput ?best' xs"
    using ne by (simp add: levenshteinDistance_lev fuzzyResult_def)
  note IH = Cons.IH [OF rest, of ?best']
  show ?case
  proof (cases "enat (?d x) < distance best")
    case True
    then have b: "?best' = fuzzyResult atd x (?d x)" by simp
    have db: "distance (fuzzyResult atd x (?d x)) = enat (?d x)"
      by (simp add: fuzzyResult_def)
    from IH show ?thesis
    proof (elim disjE conjE bexE)
      assume "matchLoop rt ic ia atd normalizedInput ?best' xs = ?best'"
        and "\<forall>a\<in>set xs. distance ?best' \<le> enat (?d a)"
      then show ?thesis
        unfolding step using True b db by (intro disjI2 bexI [of _ x]) auto
    next
      fix a
      assume "a \<in> set xs"
        and "matchLoop rt ic ia atd normalizedInput ?best' xs = fuzzyResult atd a (?d a)"
        and "enat (?d a) < distance ?best'"
        and "\<forall>a'\<in>set xs. ?d a \<le> ?d a'"
      moreover from this have "enat (?d a) < enat (?d x)"
        using b db by simp
      moreover from this have "enat (?d a) < distance best"
        using True by (rule less_trans)
      ultimately show ?thesis
        unfolding step using True b db
        by (intro disjI2 bexI [of _ a]) auto
    qed
  next
    case False
    then have b: "?best' = best" by simp
    from IH show ?thesis
    proof (elim disjE conjE bexE)
      assume "matchLoop rt ic ia atd normalizedInput ?best' xs = ?best'"
        and "\<forall>a\<in>set xs. distance ?best' \<le> enat (?d a)"
      then show ?thesis
        unfolding step using False b by (intro disjI1) auto
    next
      fix a
      assume "a \<in> set xs"
        and "matchLoop rt ic ia atd normalizedInput ?best' xs = fuzzyResult atd a (?d a)"
        and "enat (?d a) < distance ?best'"
        and "\<forall>a'\<in>set xs. ?d a \<le> ?d a'"
      then show ?thesis
        unfolding step using False b
        by (intro disjI2 bexI [of _ a]) (auto simp: not_less dest: order.strict_trans2)
    qed
  qed
qed


subsection \<open>Evaluation of the matcher on concrete strings\<close>

lemma normalizeText_eq:
  "normalizeText rt text ia =
     (if ia then stripCombiningMarks (normalizeNFD rt (collapseWhitespace (toLowerCase rt (trim text))))
      else collapseWhitespace (toLowerCase rt (trim text)))"
  unfolding normalizeText_def Let_def by (rule refl)

lemma specNormalize_eq:
  "specNormalize rt ic ia s =
     (if ia then stripCombiningMarks (normalizeNFD rt
                  (if ic then toLowerCase rt (collapseWhitespace (trim s)) else collapseWhitespace (trim s)))
      else if ic then toLowerCase rt (collapseWhitespace (trim s)) else collapseWhitespace (trim s))"
  unfolding specNormalize_def Let_def by (rule refl)

lemma matchLoop_Cons:
  "matchLoop rt ic ia atd normalizedInput best (answer # rest) =
     (if normalizedInput = normalizeForMatch rt ic ia answer then
        \<lparr>isCorrect = True, isExact = True, distance = 0, matchedAnswer = Some answer\<rparr>
      else
        matchLoop rt ic ia atd normalizedInput
          (if enat (lev normalizedInput (normalizeForMatch rt ic ia answer)) < distance best
           then fuzzyResult atd answer (lev normalizedInput (normalizeForMatch rt ic ia answer))
           else best)
          rest)"
  by (simp add: Let_def levenshteinDistance_lev fuzzyResult_def)

lemma matchAnswer_eq:
  "matchAnswer rt userInput answers opts =
     matchLoop rt (ignoreCaseOf opts) (ignoreAccentsOf opts) (allowTypoDistanceOf opts)
       (normalizeForMatch rt (ignoreCaseOf opts) (ignoreAccentsOf opts) userInput)
       \<lparr>isCorrect = False, isExact = False, distance = \<infinity>, matchedAnswer = None\<rparr>
       answers"
  unfolding matchAnswer_def Let_def by (rule refl)

lemmas string_eval =
  lit_def trim_def isWhiteSpace_def latin1Runtime_def latin1LowerUnit_def
  latin1DecomposeUnit_def latin1Decompositions_def
  normalizeForMatch_def normalizeText_eq specNormalize_eq stripCombiningMarks_def

lemmas match_eval =
  matchAnswer_eq ignoreCaseOf_def ignoreAccentsOf_def allowTypoDistanceOf_def
  matchLoop_Cons fuzzyResult_def lev_def

subsection \<open>The arithmetic on doubles\<close>

lemma scaleUp_step: "0 < p \<Longrightarrow> p < 2 ^ 52 * q \<Longrightarrow> scaleUp p q e = scaleUp (2 * p) q (e - 1)"
  by (subst scaleUp.simps) simp

lemma scaleUp_stop: "\<not> (0 < p \<and> p < 2 ^ 52 * q) \<Longrightarrow> scaleUp p q e = (p, q, e)"
  by (subst scaleUp.simps) auto

lemma scaleDown_step: "0 < q \<Longrightarrow> 2 ^ 53 * q \<le> p \<Longrightarrow> scaleDown p q e = scaleDown p (2 * q) (e + 1)"
  by (subst scaleDown.simps) simp

lemma scaleDown_stop: "\<not> (0 < q \<and> 2 ^ 53 * q \<le> p) \<Longrightarrow> scaleDown p q e = (p, q, e)"
  by (subst scaleDown.simps) auto

lemma toDouble_eq:
  "toDouble p q e =
     (if roundHalfEven (fst (scaleDown (fst (scaleUp p q e)) (fst (snd (scaleUp p q e))) (snd (snd (scaleUp p q e)))))
           (fst (snd (scaleDown (fst (scaleUp p q e)) (fst (snd (scaleUp p q e))) (snd (snd (scaleUp p q e)))))) = 2 ^ 53
      then (2 ^ 52, snd (snd (scaleDown (fst (scaleUp p q e)) (fst (snd (scaleUp p q e))) (snd (snd (scaleUp p q e))))) + 1)
      else (roundHalfEven (fst (scaleDown (fst (scaleUp p q e)) (fst (snd (scaleUp p q e))) (snd (snd (scaleUp p q e)))))
           (fst (snd (scaleDown (fst (scaleUp p q e)) (fst (snd (scaleUp p q e))) (snd (snd (scaleUp p q e)))))),
            snd (snd (scaleDown (fst (scaleUp p q e)) (fst (snd (scaleUp p q e))) (snd (snd (scaleUp p q e)))))))"
  unfolding toDouble_def Let_def split_def by (rule refl)

text \<open>
  What the two loops of \<open>toDouble\<close> return, and the bounds the result of each satisfies.
\<close>

lemma scaleUp_result:
  "\<exists>j. scaleUp p q e = (p * 2 ^ j, q, e - int j) \<and>
       (0 < j \<longrightarrow> p * 2 ^ j < 2 ^ 53 * q) \<and> (p = 0 \<or> 2 ^ 52 * q \<le> p * 2 ^ j)"
proof (induction p q e rule: scaleUp.induct)
  case (1 p q e)
  show ?case
  proof (cases "0 < p \<and> p < 2 ^ 52 * q")
    case True
    from 1 [OF True] obtain j where j: "scaleUp (2 * p) q (e - 1) = (2 * p * 2 ^ j, q, e - 1 - int j)"
      "0 < j \<longrightarrow> 2 * p * 2 ^ j < 2 ^ 53 * q" "2 * p = 0 \<or> 2 ^ 52 * q \<le> 2 * p * 2 ^ j"
      by blast
    have "scaleUp p q e = (p * 2 ^ Suc j, q, e - int (Suc j))"
      using True j(1) by (simp add: scaleUp_step mult.assoc mult.left_commute)
    moreover have "p * 2 ^ Suc j < 2 ^ 53 * q"
      using True j(2) by (cases j) (simp_all add: mult.assoc mult.left_commute)
    moreover have "2 ^ 52 * q \<le> p * 2 ^ Suc j"
      using True j(3) by (simp add: mult.assoc mult.left_commute)
    ultimately show ?thesis by blast
  next
    case False
    then have "scaleUp p q e = (p * 2 ^ 0, q, e - int 0)"
      by (simp add: scaleUp_stop)
    moreover have "p = 0 \<or> 2 ^ 52 * q \<le> p * 2 ^ 0"
      using False by auto
    ultimately show ?thesis by blast
  qed
qed

lemma scaleDown_result:
  "\<exists>i. scaleDown p q e = (p, q * 2 ^ i, e + int i) \<and>
       (0 < i \<longrightarrow> 2 ^ 52 * (q * 2 ^ i) \<le> p) \<and> (q = 0 \<or> p < 2 ^ 53 * (q * 2 ^ i))"
proof (induction p q e rule: scaleDown.induct)
  case (1 p q e)
  show ?case
  proof (cases "0 < q \<and> 2 ^ 53 * q \<le> p")
    case True
    from 1 [OF True] obtain i where i: "scaleDown p (2 * q) (e + 1) = (p, 2 * q * 2 ^ i, e + 1 + int i)"
      "0 < i \<longrightarrow> 2 ^ 52 * (2 * q * 2 ^ i) \<le> p" "2 * q = 0 \<or> p < 2 ^ 53 * (2 * q * 2 ^ i)"
      by blast
    have "scaleDown p q e = (p, q * 2 ^ Suc i, e + int (Suc i))"
      using True i(1) by (simp add: scaleDown_step mult.assoc mult.left_commute)
    moreover have "2 ^ 52 * (q * 2 ^ Suc i) \<le> p"
      using True i(2) by (cases i) (simp_all add: mult.assoc mult.left_commute)
    moreover have "p < 2 ^ 53 * (q * 2 ^ Suc i)"
      using True i(3) by (simp add: mult.assoc mult.left_commute)
    ultimately show ?thesis by blast
  next
    case False
    then have "scaleDown p q e = (p, q * 2 ^ 0, e + int 0)"
      by (simp add: scaleDown_stop)
    moreover have "q = 0 \<or> p < 2 ^ 53 * (q * 2 ^ 0)"
      using False by auto
    ultimately show ?thesis by blast
  qed
qed

lemma roundHalfEven_le: "0 < q \<Longrightarrow> 2 * (q * roundHalfEven p q) \<le> 2 * p + q"
proof -
  assume q: "0 < q"
  have p: "q * (p div q) + p mod q = p" by simp
  have s: "2 * (q * (p div q + 1)) = 2 * (q * (p div q)) + 2 * q"
    by (simp add: algebra_simps)
  have d: "2 * (q * (p div q)) \<le> 2 * p + q"
    using p by linarith
  have d1: "q \<le> 2 * (p mod q) \<Longrightarrow> 2 * (q * (p div q + 1)) \<le> 2 * p + q"
    using p s by linarith
  show ?thesis
    unfolding roundHalfEven_def Let_def using d d1 by auto
qed

lemma Math_floor_less:
  assumes "m * 2 ^ a < n * 2 ^ b" and "e = int a - int b"
  shows "Math_floor (m, e) < n"
proof (cases "b \<le> a")
  case True
  then have e: "0 \<le> e" "nat e = a - b" using assms(2) by simp_all
  have "(2::nat) ^ (a - b) * 2 ^ b = 2 ^ a"
    using True by (simp flip: power_add)
  then have "m * 2 ^ (a - b) * 2 ^ b = m * 2 ^ a"
    by (simp only: mult.assoc)
  with assms(1) have "m * 2 ^ (a - b) * 2 ^ b < n * 2 ^ b" by linarith
  then have "m * 2 ^ (a - b) < n" by simp
  then show ?thesis using e by (simp add: Math_floor_def)
next
  case False
  then have e: "\<not> 0 \<le> e" "nat (- e) = b - a" using assms(2) by simp_all
  have "(2::nat) ^ (b - a) * 2 ^ a = 2 ^ b"
    using False by (simp flip: power_add)
  then have "n * 2 ^ (b - a) * 2 ^ a = n * 2 ^ b"
    by (simp only: mult.assoc)
  with assms(1) have "m * 2 ^ a < n * 2 ^ (b - a) * 2 ^ a" by linarith
  then have "m < n * 2 ^ (b - a)" by simp
  then have "m div 2 ^ (b - a) < n"
    by (simp add: less_mult_imp_div_less)
  then show ?thesis using e by (simp add: Math_floor_def)
qed

subsection \<open>Shuffling and the options of a question\<close>

text \<open>
  The rounded product of a random value with \<open>n\<close> stays below \<open>n\<close>, so the index
  \<open>shuffle\<close> swaps with is within the array.
\<close>

lemma floorTimes_less: "0 < n \<Longrightarrow> floorTimes r n < n"
proof (cases "unat r = 0")
  case True
  assume "0 < n"
  then show ?thesis using True by (simp add: floorTimes_def timesInteger_def Math_floor_def)
next
  case False
  assume n: "0 < n"
  define k where "k = unat r"
  have k: "0 < k" "k + 1 \<le> 2 ^ 53"
    using False unsigned_less [of r, where ?'a = nat] by (simp_all add: k_def)
  obtain j where j: "scaleUp (n * k) 1 (- 53) = (n * k * 2 ^ j, 1, - 53 - int j)"
      "0 < j \<longrightarrow> n * k * 2 ^ j < 2 ^ 53 * 1" "n * k = 0 \<or> 2 ^ 52 * 1 \<le> n * k * 2 ^ j"
    using scaleUp_result [of "n * k" 1 "- 53"] by blast
  define p where "p = n * k * 2 ^ j"
  obtain i where i: "scaleDown p 1 (- 53 - int j) = (p, 1 * 2 ^ i, - 53 - int j + int i)"
      "0 < i \<longrightarrow> 2 ^ 52 * (1 * 2 ^ i) \<le> p" "(1::nat) = 0 \<or> p < 2 ^ 53 * (1 * 2 ^ i)"
    using scaleDown_result [of p 1 "- 53 - int j"] by blast
  define m where "m = roundHalfEven p (2 ^ i)"
  have td: "toDouble (n * k) 1 (- 53) =
            (if m = 2 ^ 53 then (2 ^ 52, - 53 - int j + int i + 1) else (m, - 53 - int j + int i))"
    using j(1) i(1) by (simp add: toDouble_eq p_def m_def)
  have ft: "floorTimes r n = Math_floor (toDouble (n * k) 1 (- 53))"
    using False n by (simp add: floorTimes_def timesInteger_def k_def)
  have m: "2 * (2 ^ i * m) \<le> 2 * p + 2 ^ i"
    unfolding m_def by (rule roundHalfEven_le) simp
  have small: "(2::nat) ^ i < 2 * (n * 2 ^ j)"
  proof (cases "0 < i")
    case False
    have "1 * 1 \<le> n * 2 ^ j"
      by (rule mult_le_mono) (use n in simp_all)
    moreover have "(2::nat) ^ i = 1" using False by simp
    ultimately show ?thesis by linarith
  next
    case True
    then have lo: "2 ^ 52 * 2 ^ i \<le> p" using i(2) by simp
    have "p < 2 ^ 53 * (n * 2 ^ j)"
    proof -
      have "k < 2 ^ 53" using k(2) by simp
      then have "k * (n * 2 ^ j) < 2 ^ 53 * (n * 2 ^ j)" using n by simp
      then show ?thesis by (simp add: p_def mult.assoc mult.left_commute mult.commute)
    qed
    with lo have "(2::nat) ^ 52 * 2 ^ i < 2 ^ 52 * (2 * (n * 2 ^ j))" by simp
    then show ?thesis by simp
  qed
  have bound: "2 ^ i * m < n * 2 ^ (53 + j)"
  proof -
    have "2 * p + 2 * (n * 2 ^ j) = 2 * (n * 2 ^ j) * (k + 1)"
      by (simp add: p_def algebra_simps)
    also have "\<dots> \<le> 2 * (n * 2 ^ j) * 2 ^ 53"
      using k(2) by (rule mult_le_mono2)
    finally have "2 * p + 2 * (n * 2 ^ j) \<le> 2 * (n * 2 ^ j) * 2 ^ 53" .
    with m small have "2 * (2 ^ i * m) < 2 * (n * 2 ^ j) * 2 ^ 53" by linarith
    moreover have "2 * (n * 2 ^ j) * 2 ^ 53 = 2 * (n * 2 ^ (53 + j))"
      by (simp only: power_add ac_simps)
    ultimately show ?thesis by linarith
  qed
  show ?thesis
  proof (cases "m = 2 ^ 53")
    case False
    have "m * 2 ^ i < n * 2 ^ (53 + j)" using bound by (simp add: mult.commute)
    then have "Math_floor (m, - 53 - int j + int i) < n"
      by (rule Math_floor_less) simp
    with False show ?thesis unfolding ft td by (simp only: if_False)
  next
    case True
    have "2 ^ 52 * 2 ^ (i + 1) = m * (2::nat) ^ i" using True by simp
    moreover have "m * 2 ^ i < n * 2 ^ (53 + j)" using bound by (simp add: mult.commute)
    ultimately have "2 ^ 52 * 2 ^ (i + 1) < n * 2 ^ (53 + j)" by linarith
    then have "Math_floor (2 ^ 52, - 53 - int j + int i + 1) < n"
      by (rule Math_floor_less) simp
    with True show ?thesis unfolding ft td by (simp only: if_True refl)
  qed
qed

lemma shuffleLoop_step:
  "0 < i \<Longrightarrow>
   shuffleLoop i result g =
     shuffleLoop (i - 1)
       (result[i := result ! floorTimes (g 0) (i + 1), floorTimes (g 0) (i + 1) := result ! i])
       (\<lambda>n. g (Suc n))"
  by (subst shuffleLoop.simps) (simp add: Math_random_def Let_def)

lemma shuffleLoop_stop: "shuffleLoop 0 result g = (result, g)"
  by (subst shuffleLoop.simps) simp

lemma shuffleLoop_mset:
  "i < length result \<or> i = 0 \<Longrightarrow> mset (fst (shuffleLoop i result g)) = mset result"
proof (induction i arbitrary: result g)
  case 0
  then show ?case by (simp add: shuffleLoop_stop)
next
  case (Suc i)
  let ?j = "floorTimes (g 0) (Suc i + 1)"
  have i: "Suc i < length result" using Suc.prems by simp
  have j: "?j < length result"
    using floorTimes_less [of "Suc i + 1" "g 0"] i by simp
  let ?r = "result[Suc i := result ! ?j, ?j := result ! Suc i]"
  have "mset ?r = mset result"
    using i j by (simp add: mset_swap)
  moreover have "mset (fst (shuffleLoop i ?r (\<lambda>n. g (Suc n)))) = mset ?r"
    using i by (intro Suc.IH) simp
  ultimately show ?case
    by (simp add: shuffleLoop_step)
qed

lemma shuffle_mset: "mset (fst (shuffle xs g)) = mset xs"
  unfolding shuffle_def by (rule shuffleLoop_mset) (cases xs, auto)

lemma shuffle_length: "length (fst (shuffle xs g)) = length xs"
  using shuffle_mset [of xs g] by (metis size_mset)

lemma shuffle_set: "set (fst (shuffle xs g)) = set xs"
  using shuffle_mset [of xs g] by (metis set_mset_mset)

lemma wrongOptions_texts:
  "map option_text (fst (wrongOptions toString36 ts g)) = ts \<and>
   filter option_isCorrect (fst (wrongOptions toString36 ts g)) = []"
  by (induction ts arbitrary: g) (auto simp: split_def Let_def)

lemma buildOptions_fst:
  "\<exists>i wrong. fst (buildOptions toString36 answer wrongAnswers g) =
       \<lparr>option_id = i, option_text = answer, option_isCorrect = True\<rparr> # wrong \<and>
     map option_text wrong = wrongAnswers \<and> filter option_isCorrect wrong = []"
  using wrongOptions_texts [of toString36 wrongAnswers]
  by (simp add: buildOptions_def split_def Let_def)


lemma createQuestion_fields:
  "card (fst (createQuestion toString36 c allCards dir md g)) = c \<and>
   direction (fst (createQuestion toString36 c allCards dir md g)) = dir \<and>
   mode (fst (createQuestion toString36 c allCards dir md g)) = md \<and>
   prompt (fst (createQuestion toString36 c allCards dir md g)) = promptText dir c \<and>
   correctAnswers (fst (createQuestion toString36 c allCards dir md g)) =
     (if dir = FrontToBack then back_text (card_back c) # alternatives (card_back c)
      else [front_text (card_front c)])"
  by (simp add: createQuestion_def Let_def split_def)

lemma createQuestion_type_answer:
  "options (fst (createQuestion toString36 c allCards dir TypeAnswer g)) = None"
  by (simp add: createQuestion_def Let_def split_def)

lemma count_correct_shuffle:
  "length (filter P (fst (shuffle xs g))) = length (filter P xs)"
proof -
  have "mset (filter P (fst (shuffle xs g))) = mset (filter P xs)"
    by (simp add: shuffle_mset)
  then show ?thesis by (metis size_mset)
qed

lemma createQuestion_multiple_choice:
  "\<exists>opts. options (fst (createQuestion toString36 c allCards dir MultipleChoice g)) = Some opts \<and>
     length opts = 1 + min 3 (length (filter (\<lambda>x. card_id x \<noteq> card_id c) allCards)) \<and>
     length (filter option_isCorrect opts) = 1 \<and>
     (\<forall>opt \<in> set opts. option_isCorrect opt \<longrightarrow> option_text opt = answerText dir c) \<and>
     (\<forall>opt \<in> set opts. \<not> option_isCorrect opt \<longrightarrow>
        option_text opt \<in> answerText dir ` {x \<in> set allCards. card_id x \<noteq> card_id c})"
proof -
  let ?others = "filter (\<lambda>x. card_id x \<noteq> card_id c) allCards"
  let ?shuffled = "fst (shuffle ?others g)"
  let ?g1 = "snd (shuffle ?others g)"
  let ?wrongCards = "take (min 3 (length ?others)) ?shuffled"
  let ?wrongAnswers = "map (answerText dir) ?wrongCards"
  let ?built = "buildOptions toString36 (answerText dir c) ?wrongAnswers ?g1"
  let ?opts = "fst (shuffle (fst ?built) (snd ?built))"
  have q: "options (fst (createQuestion toString36 c allCards dir MultipleChoice g)) = Some ?opts"
    by (simp add: createQuestion_def Let_def split_def answerText_def)
  obtain i wrong where built: "fst ?built =
      \<lparr>option_id = i, option_text = answerText dir c, option_isCorrect = True\<rparr> # wrong"
    and texts: "map option_text wrong = ?wrongAnswers"
    and none: "filter option_isCorrect wrong = []"
    using buildOptions_fst [of toString36 "answerText dir c" ?wrongAnswers ?g1] by blast
  have len_wrong: "length wrong = min 3 (length ?others)"
  proof -
    have "length wrong = length (map option_text wrong)" by simp
    also have "\<dots> = length ?wrongCards" by (simp only: texts length_map)
    also have "\<dots> = min 3 (length ?others)" by (simp add: shuffle_length)
    finally show ?thesis .
  qed
  have len: "length ?opts = 1 + min 3 (length ?others)"
    by (simp add: shuffle_length built len_wrong)
  have one: "length (filter option_isCorrect ?opts) = 1"
    by (simp add: count_correct_shuffle built none)
  have set_opts: "set ?opts =
      insert \<lparr>option_id = i, option_text = answerText dir c, option_isCorrect = True\<rparr> (set wrong)"
    unfolding shuffle_set built by simp
  have wrong_false: "\<And>opt. opt \<in> set wrong \<Longrightarrow> \<not> option_isCorrect opt"
    using none by (simp add: filter_empty_conv)
  have wrong_text: "\<And>opt. opt \<in> set wrong \<Longrightarrow>
      option_text opt \<in> answerText dir ` {x \<in> set allCards. card_id x \<noteq> card_id c}"
  proof -
    fix opt assume "opt \<in> set wrong"
    then have "option_text opt \<in> set (map option_text wrong)" by simp
    then have "option_text opt \<in> answerText dir ` set ?wrongCards"
      by (simp only: texts set_map)
    moreover have "set ?wrongCards \<subseteq> set ?shuffled" by (rule set_take_subset)
    moreover have "set ?shuffled = {x \<in> set allCards. card_id x \<noteq> card_id c}"
      by (simp add: shuffle_set)
    ultimately show "option_text opt \<in> answerText dir ` {x \<in> set allCards. card_id x \<noteq> card_id c}"
      by blast
  qed
  have correct: "\<forall>opt \<in> set ?opts. option_isCorrect opt \<longrightarrow> option_text opt = answerText dir c"
  proof (intro ballI impI)
    fix opt assume "opt \<in> set ?opts" and c: "option_isCorrect opt"
    then have "opt = \<lparr>option_id = i, option_text = answerText dir c, option_isCorrect = True\<rparr> \<or>
               opt \<in> set wrong"
      by (simp only: set_opts insert_iff)
    then have "opt = \<lparr>option_id = i, option_text = answerText dir c, option_isCorrect = True\<rparr>"
      using wrong_false c by blast
    then show "option_text opt = answerText dir c" by simp
  qed
  have distract: "\<forall>opt \<in> set ?opts. \<not> option_isCorrect opt \<longrightarrow>
      option_text opt \<in> answerText dir ` {x \<in> set allCards. card_id x \<noteq> card_id c}"
  proof (intro ballI impI)
    fix opt assume "opt \<in> set ?opts" and c: "\<not> option_isCorrect opt"
    then have "opt = \<lparr>option_id = i, option_text = answerText dir c, option_isCorrect = True\<rparr> \<or>
               opt \<in> set wrong"
      by (simp only: set_opts insert_iff)
    then have "opt \<in> set wrong"
      using c by auto
    then show "option_text opt \<in> answerText dir ` {x \<in> set allCards. card_id x \<noteq> card_id c}"
      by (rule wrong_text)
  qed
  show ?thesis
    by (rule exI [of _ ?opts]) (intro conjI q len one correct distract)
qed

lemma generateQuestionsLoop_length:
  "length (fst (generateQuestionsLoop toString36 lm sc rest qs g)) = length qs + 2 * length rest"
  by (induction rest arbitrary: qs g) (simp_all add: split_def Let_def)

lemma generateQuestions_length:
  "length (fst (generateQuestions toString36 cards lm g)) = 2 * length cards"
  by (simp add: generateQuestions_def split_def Let_def shuffle_length generateQuestionsLoop_length)

lemma generateQuestionsLoop_members:
  "q \<in> set (fst (generateQuestionsLoop toString36 lm sc rest qs g)) \<Longrightarrow>
   q \<in> set qs \<or>
   (\<exists>c \<in> set rest. \<exists>dir g'. q = fst (createQuestion toString36 c sc dir (fst (pickMode lm g')) (snd (pickMode lm g'))))"
proof (induction rest arbitrary: qs g)
  case Nil
  then show ?case by simp
next
  case (Cons c rest)
  let ?m1 = "pickMode lm g"
  let ?c1 = "createQuestion toString36 c sc FrontToBack (fst ?m1) (snd ?m1)"
  let ?m2 = "pickMode lm (snd ?c1)"
  let ?c2 = "createQuestion toString36 c sc BackToFront (fst ?m2) (snd ?m2)"
  have "q \<in> set (fst (generateQuestionsLoop toString36 lm sc rest (qs @ [fst ?c1, fst ?c2]) (snd ?c2)))"
    using Cons.prems by (simp add: split_def Let_def)
  from Cons.IH [OF this] show ?case
  proof (elim disjE bexE exE)
    assume "q \<in> set (qs @ [fst ?c1, fst ?c2])"
    then consider "q \<in> set qs" | "q = fst ?c1" | "q = fst ?c2" by auto
    then show ?thesis
    proof cases
      case 1 then show ?thesis by simp
    next
      case 2 then show ?thesis by (intro disjI2 bexI [of _ c]) auto
    next
      case 3 then show ?thesis by (intro disjI2 bexI [of _ c]) auto
    qed
  next
    fix c' dir g'
    assume "c' \<in> set rest"
      and "q = fst (createQuestion toString36 c' sc dir (fst (pickMode lm g')) (snd (pickMode lm g')))"
    then show ?thesis by (intro disjI2 bexI [of _ c']) auto
  qed
qed

lemma generateQuestions_members:
  assumes "q \<in> set (fst (generateQuestions toString36 cards lm g))"
  shows "\<exists>c \<in> set cards. \<exists>sc dir g'. mset sc = mset cards \<and>
           q = fst (createQuestion toString36 c sc dir (fst (pickMode lm g')) (snd (pickMode lm g')))"
proof -
  let ?sc = "fst (shuffle cards g)"
  let ?loop = "generateQuestionsLoop toString36 lm ?sc ?sc [] (snd (shuffle cards g))"
  have "q \<in> set (fst (shuffle (fst ?loop) (snd ?loop)))"
    using assms by (simp add: generateQuestions_def split_def Let_def)
  then have "q \<in> set (fst ?loop)" by (simp add: shuffle_set)
  from generateQuestionsLoop_members [OF this]
  obtain c dir g' where "c \<in> set ?sc"
    and "q = fst (createQuestion toString36 c ?sc dir (fst (pickMode lm g')) (snd (pickMode lm g')))"
    by auto
  then show ?thesis
    using shuffle_mset [of cards g] shuffle_set [of cards g] by blast
qed

lemma filter_length_mset:
  "mset xs = mset ys \<Longrightarrow> length (filter P xs) = length (filter P ys)"
proof -
  assume "mset xs = mset ys"
  then have "mset (filter P xs) = mset (filter P ys)" by simp
  then show ?thesis by (metis size_mset)
qed

lemma generateQuestions_multiple_choice:
  assumes q: "q \<in> set (fst (generateQuestions toString36 cards lm g))"
    and m: "mode q = MultipleChoice"
  shows "\<exists>opts. options q = Some opts \<and>
     length opts = 1 + min 3 (length (filter (\<lambda>x. card_id x \<noteq> card_id (card q)) cards)) \<and>
     length (filter option_isCorrect opts) = 1 \<and>
     (\<forall>opt \<in> set opts. option_isCorrect opt \<longrightarrow> option_text opt = answerText (direction q) (card q)) \<and>
     (\<forall>opt \<in> set opts. \<not> option_isCorrect opt \<longrightarrow>
        option_text opt \<in> answerText (direction q) ` {x \<in> set cards. card_id x \<noteq> card_id (card q)})"
proof -
  from generateQuestions_members [OF q]
  obtain c sc dir g' where c: "c \<in> set cards" and sc: "mset sc = mset cards"
    and qq: "q = fst (createQuestion toString36 c sc dir (fst (pickMode lm g')) (snd (pickMode lm g')))"
    by blast
  let ?md = "fst (pickMode lm g')" and ?g = "snd (pickMode lm g')"
  have f: "card q = c" "direction q = dir" "mode q = ?md"
    using createQuestion_fields [of toString36 c sc dir ?md ?g] by (simp_all add: qq)
  have md: "?md = MultipleChoice" using m f by simp
  have len: "length (filter (\<lambda>x. card_id x \<noteq> card_id c) sc) =
             length (filter (\<lambda>x. card_id x \<noteq> card_id c) cards)"
    by (rule filter_length_mset [OF sc])
  have st: "set sc = set cards" using sc by (metis set_mset_mset)
  from createQuestion_multiple_choice [of toString36 c sc dir ?g]
  show ?thesis
    unfolding qq [symmetric, unfolded md] f len st .
qed

lemma pickMode_fixed:
  "pickMode LearnMultipleChoice g = (MultipleChoice, g)"
  "pickMode LearnTypeAnswer g = (TypeAnswer, g)"
  by (simp_all add: pickMode_def)

lemma map_const_all: "(\<And>x. x \<in> set xs \<Longrightarrow> f x = v) \<Longrightarrow> map f xs = replicate (length xs) v"
  by (induction xs) auto

lemma sliceTo_length:
  "length (sliceTo xs e) = (if e < 0 then nat (int (length xs) + e) else min (nat e) (length xs))"
  by (auto simp: sliceTo_def)

lemma generateQuestion_fields:
  "gq_card (fst (generateQuestion toString36 c allCards dir n g)) = c \<and>
   gq_direction (fst (generateQuestion toString36 c allCards dir n g)) = dir \<and>
   mc_cardId (gq_question (fst (generateQuestion toString36 c allCards dir n g))) = card_id c \<and>
   mc_prompt (gq_question (fst (generateQuestion toString36 c allCards dir n g))) = promptText dir c"
  by (simp add: generateQuestion_def Let_def split_def)

lemma generateQuestion_options:
  "\<exists>opts. mc_options (gq_question (fst (generateQuestion toString36 c allCards dir n g))) = opts \<and>
     length opts =
       1 + length (sliceTo (filter (\<lambda>x. card_id x \<noteq> card_id c) allCards) (n - 1)) \<and>
     length (filter option_isCorrect opts) = 1 \<and>
     (\<forall>opt \<in> set opts. option_isCorrect opt \<longrightarrow> option_text opt = answerText dir c) \<and>
     (\<forall>opt \<in> set opts. \<not> option_isCorrect opt \<longrightarrow>
        option_text opt \<in> answerText dir ` {x \<in> set allCards. card_id x \<noteq> card_id c})"
proof -
  let ?others = "filter (\<lambda>x. card_id x \<noteq> card_id c) allCards"
  let ?shuffled = "fst (shuffle ?others g)"
  let ?g1 = "snd (shuffle ?others g)"
  let ?wrongCards = "sliceTo ?shuffled (n - 1)"
  let ?wrongAnswers = "map (answerText dir) ?wrongCards"
  let ?built = "buildOptions toString36 (answerText dir c) ?wrongAnswers ?g1"
  let ?opts = "fst (shuffle (fst ?built) (snd ?built))"
  have q: "mc_options (gq_question (fst (generateQuestion toString36 c allCards dir n g))) = ?opts"
    by (simp add: generateQuestion_def Let_def split_def answerText_def)
  obtain i wrong where built: "fst ?built =
      \<lparr>option_id = i, option_text = answerText dir c, option_isCorrect = True\<rparr> # wrong"
    and texts: "map option_text wrong = ?wrongAnswers"
    and none: "filter option_isCorrect wrong = []"
    using buildOptions_fst [of toString36 "answerText dir c" ?wrongAnswers ?g1] by blast
  have len_wrong: "length wrong = length (sliceTo ?others (n - 1))"
  proof -
    have "length wrong = length (map option_text wrong)" by simp
    also have "\<dots> = length ?wrongCards" by (simp only: texts length_map)
    also have "\<dots> = length (sliceTo ?others (n - 1))"
      by (simp only: sliceTo_length shuffle_length)
    finally show ?thesis .
  qed
  have len: "length ?opts = 1 + length (sliceTo ?others (n - 1))"
    by (simp add: shuffle_length built len_wrong)
  have one: "length (filter option_isCorrect ?opts) = 1"
    by (simp add: count_correct_shuffle built none)
  have set_opts: "set ?opts =
      insert \<lparr>option_id = i, option_text = answerText dir c, option_isCorrect = True\<rparr> (set wrong)"
    unfolding shuffle_set built by simp
  have wrong_false: "\<And>opt. opt \<in> set wrong \<Longrightarrow> \<not> option_isCorrect opt"
    using none by (simp add: filter_empty_conv)
  have wrong_text: "\<And>opt. opt \<in> set wrong \<Longrightarrow>
      option_text opt \<in> answerText dir ` {x \<in> set allCards. card_id x \<noteq> card_id c}"
  proof -
    fix opt assume "opt \<in> set wrong"
    then have "option_text opt \<in> set (map option_text wrong)" by simp
    then have "option_text opt \<in> answerText dir ` set ?wrongCards"
      by (simp only: texts set_map)
    moreover have "set ?wrongCards \<subseteq> set ?shuffled"
      unfolding sliceTo_def by (simp add: set_take_subset)
    moreover have "set ?shuffled = {x \<in> set allCards. card_id x \<noteq> card_id c}"
      by (simp add: shuffle_set)
    ultimately show "option_text opt \<in> answerText dir ` {x \<in> set allCards. card_id x \<noteq> card_id c}"
      by blast
  qed
  have correct: "\<forall>opt \<in> set ?opts. option_isCorrect opt \<longrightarrow> option_text opt = answerText dir c"
  proof (intro ballI impI)
    fix opt assume "opt \<in> set ?opts" and c: "option_isCorrect opt"
    then have "opt = \<lparr>option_id = i, option_text = answerText dir c, option_isCorrect = True\<rparr> \<or>
               opt \<in> set wrong"
      by (simp only: set_opts insert_iff)
    then have "opt = \<lparr>option_id = i, option_text = answerText dir c, option_isCorrect = True\<rparr>"
      using wrong_false c by blast
    then show "option_text opt = answerText dir c" by simp
  qed
  have distract: "\<forall>opt \<in> set ?opts. \<not> option_isCorrect opt \<longrightarrow>
      option_text opt \<in> answerText dir ` {x \<in> set allCards. card_id x \<noteq> card_id c}"
  proof (intro ballI impI)
    fix opt assume "opt \<in> set ?opts" and c: "\<not> option_isCorrect opt"
    then have "opt = \<lparr>option_id = i, option_text = answerText dir c, option_isCorrect = True\<rparr> \<or>
               opt \<in> set wrong"
      by (simp only: set_opts insert_iff)
    then have "opt \<in> set wrong"
      using c by auto
    then show "option_text opt \<in> answerText dir ` {x \<in> set allCards. card_id x \<noteq> card_id c}"
      by (rule wrong_text)
  qed
  show ?thesis
    by (rule exI [of _ ?opts]) (intro conjI q len one correct distract)
qed

lemma generateMultipleChoiceLoop_length:
  "length (fst (generateMultipleChoiceLoop toString36 n bidir cardList rest qs g)) =
     length qs + (if bidir then 2 else 1) * length rest"
proof (cases bidir)
  case True
  have "length (fst (generateMultipleChoiceLoop toString36 n True cardList rest qs g)) =
        length qs + 2 * length rest"
    by (induction rest arbitrary: qs g) (simp_all add: split_def Let_def)
  then show ?thesis using True by simp
next
  case False
  have "length (fst (generateMultipleChoiceLoop toString36 n False cardList rest qs g)) =
        length qs + length rest"
    by (induction rest arbitrary: qs g) (simp_all add: split_def Let_def)
  then show ?thesis using False by simp
qed

lemma generateMultipleChoiceQuestionsFromCards_length:
  "length (fst (generateMultipleChoiceQuestionsFromCards toString36 cards opts g)) =
     (if bidirectionalOf opts then 2 * length cards else length cards)"
  by (simp add: generateMultipleChoiceQuestionsFromCards_def split_def Let_def shuffle_length
      generateMultipleChoiceLoop_length)

lemma generateMultipleChoiceLoop_members:
  "q \<in> set (fst (generateMultipleChoiceLoop toString36 n bidir cardList rest qs g)) \<Longrightarrow>
   q \<in> set qs \<or> (\<exists>c \<in> set rest. \<exists>dir g'. q = fst (generateQuestion toString36 c cardList dir n g'))"
proof (induction rest arbitrary: qs g)
  case Nil
  then show ?case by simp
next
  case (Cons c rest)
  let ?c1 = "generateQuestion toString36 c cardList FrontToBack n g"
  let ?c2 = "generateQuestion toString36 c cardList BackToFront n (snd ?c1)"
  show ?case
  proof (cases bidir)
    case True
    have "q \<in> set (fst (generateMultipleChoiceLoop toString36 n bidir cardList rest
                          (qs @ [fst ?c1, fst ?c2]) (snd ?c2)))"
      using Cons.prems True by (simp add: split_def Let_def)
    from Cons.IH [OF this] show ?thesis
    proof (elim disjE bexE exE)
      assume "q \<in> set (qs @ [fst ?c1, fst ?c2])"
      then consider "q \<in> set qs" | "q = fst ?c1" | "q = fst ?c2" by auto
      then show ?thesis
      proof cases
        case 1 then show ?thesis by simp
      next
        case 2 then show ?thesis by (intro disjI2 bexI [of _ c]) auto
      next
        case 3 then show ?thesis by (intro disjI2 bexI [of _ c]) auto
      qed
    next
      fix c' dir g'
      assume "c' \<in> set rest" and "q = fst (generateQuestion toString36 c' cardList dir n g')"
      then show ?thesis by (intro disjI2 bexI [of _ c']) auto
    qed
  next
    case False
    have "q \<in> set (fst (generateMultipleChoiceLoop toString36 n bidir cardList rest
                          (qs @ [fst ?c1]) (snd ?c1)))"
      using Cons.prems False by (simp add: split_def Let_def)
    from Cons.IH [OF this] show ?thesis
    proof (elim disjE bexE exE)
      assume "q \<in> set (qs @ [fst ?c1])"
      then consider "q \<in> set qs" | "q = fst ?c1" by auto
      then show ?thesis
      proof cases
        case 1 then show ?thesis by simp
      next
        case 2 then show ?thesis by (intro disjI2 bexI [of _ c]) auto
      qed
    next
      fix c' dir g'
      assume "c' \<in> set rest" and "q = fst (generateQuestion toString36 c' cardList dir n g')"
      then show ?thesis by (intro disjI2 bexI [of _ c']) auto
    qed
  qed
qed

lemma generateMultipleChoiceQuestionsFromCards_members:
  assumes "q \<in> set (fst (generateMultipleChoiceQuestionsFromCards toString36 cards opts g))"
  shows "\<exists>c \<in> set cards. \<exists>cardList dir g'. mset cardList = mset cards \<and>
           q = fst (generateQuestion toString36 c cardList dir (numOptionsOf opts) g')"
proof -
  let ?cl = "if shouldShuffleOf opts then shuffle cards g else (cards, g)"
  let ?loop = "generateMultipleChoiceLoop toString36 (numOptionsOf opts) (bidirectionalOf opts)
                 (fst ?cl) (fst ?cl) [] (snd ?cl)"
  have cl: "mset (fst ?cl) = mset cards"
    by (simp add: shuffle_mset)
  have "q \<in> set (fst ?loop)"
    using assms
    by (cases "shouldShuffleOf opts")
       (simp_all add: generateMultipleChoiceQuestionsFromCards_def split_def Let_def shuffle_set)
  from generateMultipleChoiceLoop_members [OF this]
  obtain c dir g' where "c \<in> set (fst ?cl)"
    and "q = fst (generateQuestion toString36 c (fst ?cl) dir (numOptionsOf opts) g')"
    by auto
  moreover have "set (fst ?cl) = set cards"
    using cl by (metis set_mset_mset)
  ultimately show ?thesis using cl by blast
qed

text \<open>The card, the direction and the prompt of every question generated.\<close>

lemma mset_concat_map:
  assumes "mset xs = mset ys"
  shows "mset (concat (map h xs)) = mset (concat (map h ys))"
proof -
  have "mset (concat (map h zs)) = sum_mset (image_mset (\<lambda>z. mset (h z)) (mset zs))" for zs
    by (induction zs) simp_all
  then show ?thesis using assms by simp
qed

lemma generateQuestionsLoop_sides:
  "map (\<lambda>q. (card q, direction q, prompt q)) (fst (generateQuestionsLoop toString36 lm sc rest qs g)) =
     map (\<lambda>q. (card q, direction q, prompt q)) qs @
     concat (map (\<lambda>c. [(c, FrontToBack, promptText FrontToBack c),
                         (c, BackToFront, promptText BackToFront c)]) rest)"
  by (induction rest arbitrary: qs g) (simp_all add: split_def Let_def createQuestion_fields)

lemma generateQuestions_sides:
  "mset (map (\<lambda>q. (card q, direction q, prompt q)) (fst (generateQuestions toString36 cards lm g))) =
   mset (concat (map (\<lambda>c. [(c, FrontToBack, promptText FrontToBack c),
                             (c, BackToFront, promptText BackToFront c)]) cards))"
proof -
  let ?f = "\<lambda>q. (card q, direction q, prompt q)"
  let ?both = "\<lambda>c. [(c, FrontToBack, promptText FrontToBack c), (c, BackToFront, promptText BackToFront c)]"
  let ?sc = "fst (shuffle cards g)"
  let ?loop = "generateQuestionsLoop toString36 lm ?sc ?sc [] (snd (shuffle cards g))"
  have "mset (map ?f (fst (generateQuestions toString36 cards lm g))) =
        image_mset ?f (mset (fst (shuffle (fst ?loop) (snd ?loop))))"
    by (simp add: generateQuestions_def split_def Let_def)
  also have "\<dots> = mset (map ?f (fst ?loop))"
    by (simp add: shuffle_mset)
  also have "\<dots> = mset (concat (map ?both ?sc))"
    by (simp only: generateQuestionsLoop_sides) simp
  also have "\<dots> = mset (concat (map ?both cards))"
    by (rule mset_concat_map) (rule shuffle_mset)
  finally show ?thesis .
qed

lemma generateMultipleChoiceLoop_sides:
  "map (\<lambda>q. (gq_card q, gq_direction q, mc_prompt (gq_question q)))
       (fst (generateMultipleChoiceLoop toString36 n bidir cardList rest qs g)) =
     map (\<lambda>q. (gq_card q, gq_direction q, mc_prompt (gq_question q))) qs @
     concat (map (\<lambda>c. if bidir then [(c, FrontToBack, promptText FrontToBack c),
                                      (c, BackToFront, promptText BackToFront c)]
                        else [(c, FrontToBack, promptText FrontToBack c)]) rest)"
proof (cases bidir)
  case True
  have "map (\<lambda>q. (gq_card q, gq_direction q, mc_prompt (gq_question q)))
          (fst (generateMultipleChoiceLoop toString36 n True cardList rest qs g)) =
        map (\<lambda>q. (gq_card q, gq_direction q, mc_prompt (gq_question q))) qs @
        concat (map (\<lambda>c. [(c, FrontToBack, promptText FrontToBack c),
                            (c, BackToFront, promptText BackToFront c)]) rest)"
    by (induction rest arbitrary: qs g) (simp_all add: split_def Let_def generateQuestion_fields)
  then show ?thesis using True by simp
next
  case False
  have "map (\<lambda>q. (gq_card q, gq_direction q, mc_prompt (gq_question q)))
          (fst (generateMultipleChoiceLoop toString36 n False cardList rest qs g)) =
        map (\<lambda>q. (gq_card q, gq_direction q, mc_prompt (gq_question q))) qs @
        concat (map (\<lambda>c. [(c, FrontToBack, promptText FrontToBack c)]) rest)"
    by (induction rest arbitrary: qs g) (simp_all add: split_def Let_def generateQuestion_fields)
  then show ?thesis using False by simp
qed

lemma generateMultipleChoice_sides:
  "mset (map (\<lambda>q. (gq_card q, gq_direction q, mc_prompt (gq_question q)))
          (fst (generateMultipleChoiceQuestionsFromCards toString36 cards opts g))) =
   mset (concat (map (\<lambda>c. if bidirectionalOf opts
                            then [(c, FrontToBack, promptText FrontToBack c),
                                  (c, BackToFront, promptText BackToFront c)]
                            else [(c, FrontToBack, promptText FrontToBack c)]) cards))"
proof -
  let ?f = "\<lambda>q. (gq_card q, gq_direction q, mc_prompt (gq_question q))"
  let ?sides = "\<lambda>c. if bidirectionalOf opts
                      then [(c, FrontToBack, promptText FrontToBack c),
                            (c, BackToFront, promptText BackToFront c)]
                      else [(c, FrontToBack, promptText FrontToBack c)]"
  let ?cl = "if shouldShuffleOf opts then shuffle cards g else (cards, g)"
  let ?loop = "generateMultipleChoiceLoop toString36 (numOptionsOf opts) (bidirectionalOf opts)
                 (fst ?cl) (fst ?cl) [] (snd ?cl)"
  have cl: "mset (fst ?cl) = mset cards"
    by (simp add: shuffle_mset)
  have "mset (map ?f (fst (generateMultipleChoiceQuestionsFromCards toString36 cards opts g))) =
        image_mset ?f (mset (fst ?loop))"
    by (cases "shouldShuffleOf opts")
       (simp_all add: generateMultipleChoiceQuestionsFromCards_def split_def Let_def shuffle_mset)
  also have "\<dots> = mset (map ?f (fst ?loop))"
    by simp
  also have "\<dots> = mset (concat (map ?sides (fst ?cl)))"
    by (simp only: generateMultipleChoiceLoop_sides) simp
  also have "\<dots> = mset (concat (map ?sides cards))"
    by (rule mset_concat_map) (rule cl)
  finally show ?thesis .
qed

lemma generateMultipleChoice_in_order:
  "map (\<lambda>q. (gq_card q, gq_direction q, mc_prompt (gq_question q)))
     (fst (generateMultipleChoiceQuestionsFromCards toString36 cards (opts\<lparr>shouldShuffle := Some False\<rparr>) g)) =
   concat (map (\<lambda>c. if bidirectionalOf opts
                     then [(c, FrontToBack, promptText FrontToBack c),
                           (c, BackToFront, promptText BackToFront c)]
                     else [(c, FrontToBack, promptText FrontToBack c)]) cards)"
  by (simp add: generateMultipleChoiceQuestionsFromCards_def split_def Let_def shouldShuffleOf_def
      bidirectionalOf_def numOptionsOf_def generateMultipleChoiceLoop_sides)

lemma generateQuestions_single_card:
  assumes "q \<in> set (fst (generateQuestions toString36 [c] LearnMultipleChoice g))"
  shows "map_option length (options q) = Some 1"
proof -
  from generateQuestions_members [OF assms]
  obtain c' sc dir g' where c': "c' \<in> set [c]"
    and qq: "q = fst (createQuestion toString36 c' sc dir (fst (pickMode LearnMultipleChoice g'))
                        (snd (pickMode LearnMultipleChoice g')))"
    by blast
  have f: "card q = c" "mode q = MultipleChoice"
    using createQuestion_fields [of toString36 c' sc dir MultipleChoice g'] c'
    by (simp_all add: qq pickMode_fixed)
  from generateQuestions_multiple_choice [OF assms f(2)]
  obtain opts where "options q = Some opts"
    and "length opts = 1 + min 3 (length (filter (\<lambda>x. card_id x \<noteq> card_id (card q)) [c]))"
    by blast
  then show ?thesis by (simp add: f)
qed

lemma generateMultipleChoice_single_card:
  assumes "q \<in> set (fst (generateMultipleChoiceQuestionsFromCards toString36 [c]
                          \<lparr>numOptions = None, bidirectional = None, shouldShuffle = None\<rparr> g))"
  shows "length (mc_options (gq_question q)) = 1"
proof -
  let ?o = "\<lparr>numOptions = None, bidirectional = None, shouldShuffle = None\<rparr>"
  from generateMultipleChoiceQuestionsFromCards_members [OF assms]
  obtain c' cardList dir g' where c': "c' \<in> set [c]" and cl: "mset cardList = mset [c]"
    and qq: "q = fst (generateQuestion toString36 c' cardList dir (numOptionsOf ?o) g')"
    by blast
  have "cardList = [c]" using cl by simp
  moreover have "c' = c" using c' by simp
  ultimately have qq': "q = fst (generateQuestion toString36 c [c] dir 4 g')"
    using qq by (simp add: numOptionsOf_def)
  from generateQuestion_options [of toString36 c "[c]" dir 4 g']
  show ?thesis by (simp add: qq' sliceTo_def)
qed

subsection \<open>Steps of the session\<close>

lemma quietStep_refl: "quietStep s s"
  by (simp add: quietStep_def)

lemma confirmOption_step:
  "quietStep s (confirmOption s oi) \<or> finalStep s (confirmOption s oi)"
  by (cases oi) (simp_all add: confirmOption_def Let_def quietStep_def finalStep_def)

lemma handleMultipleChoiceKey_step:
  "quietStep s (handleMultipleChoiceKey rt e s) \<or> finalStep s (handleMultipleChoiceKey rt e s)"
proof -
  have sel: "\<And>v. quietStep s (s\<lparr>selectedOption := v\<rparr>)"
    by (simp add: quietStep_def)
  show ?thesis
    unfolding handleMultipleChoiceKey_def Let_def
    using confirmOption_step sel by (simp only: split: if_split) blast
qed

lemma handleTypeAnswerKey_step:
  "quietStep s (handleTypeAnswerKey rt e s) \<or> finalStep s (handleTypeAnswerKey rt e s)"
  unfolding handleTypeAnswerKey_def Let_def
  by (simp add: quietStep_def finalStep_def)

lemma handleKey_step:
  "handleKey rt e s =
     (if currentIndex s \<ge> length (questions s) then s
      else if showingResult s then
        s\<lparr>showingResult := False, currentIndex := currentIndex s + 1,
          selectedOption := - 1, typedAnswer := [], answered := False\<rparr>
      else handleKey rt e s) \<and>
   (currentIndex s < length (questions s) \<and> \<not> showingResult s \<longrightarrow>
      quietStep s (handleKey rt e s) \<or> finalStep s (handleKey rt e s))"
  using handleMultipleChoiceKey_step [of s rt e] handleTypeAnswerKey_step [of s rt e]
  by (simp add: handleKey_def Let_def element_def)





lemma handleKey_counters:
  assumes "sessionInvariant s"
  shows "if \<not> showingResult s \<and> showingResult (handleKey rt e s)
         then (correct (handleKey rt e s) = correct s + 1 \<and> incorrect (handleKey rt e s) = incorrect s) \<or>
              (correct (handleKey rt e s) = correct s \<and> incorrect (handleKey rt e s) = incorrect s + 1)
         else correct (handleKey rt e s) = correct s \<and> incorrect (handleKey rt e s) = incorrect s"
proof -
  consider "currentIndex s \<ge> length (questions s)"
    | "currentIndex s < length (questions s)" "showingResult s"
    | "currentIndex s < length (questions s)" "\<not> showingResult s"
    by linarith
  then show ?thesis
  proof cases
    case 1
    then show ?thesis by (simp add: handleKey_def Let_def)
  next
    case 2
    then show ?thesis by (simp add: handleKey_def Let_def)
  next
    case 3
    then have "quietStep s (handleKey rt e s) \<or> finalStep s (handleKey rt e s)"
      using handleKey_step [of rt e s] by blast
    then show ?thesis
      using 3 by (auto simp: quietStep_def finalStep_def)
  qed
qed

subsection \<open>The handlers without local bindings\<close>

lemma typed_example_question: "fst (createQuestion toString36 exampleCard [exampleCard] FrontToBack TypeAnswer g) = typedQuestion"
  by (simp add: createQuestion_def Let_def typedQuestion_def exampleCard_def)



lemma handleKey_awaiting:
  "currentIndex s < length (questions s) \<Longrightarrow> \<not> showingResult s \<Longrightarrow>
   handleKey rt e s =
     (if mode (questions s ! currentIndex s) = MultipleChoice then handleMultipleChoiceKey rt e s
      else handleTypeAnswerKey rt e s)"
  by (simp add: handleKey_def Let_def element_def)

lemma handleTypeAnswerKey_eq:
  "handleTypeAnswerKey rt event state =
     (if toLowerCase rt (key_name event) = lit ''backspace'' then
        state\<lparr>typedAnswer := butlast (typedAnswer state)\<rparr>
      else if toLowerCase rt (key_name event) = lit ''return'' \<or>
              toLowerCase rt (key_name event) = lit ''enter'' then
        (if length (trim (typedAnswer state)) > 0 then
           state
           \<lparr>answered := True,
            lastAnswerCorrect :=
              isCorrect (matchAnswer rt (typedAnswer state)
                (correctAnswers (questions state ! currentIndex state))
                \<lparr>ignoreCase = Some True, ignoreAccents = Some True, allowTypoDistance = Some 1\<rparr>),
            correctAnswer := element (correctAnswers (questions state ! currentIndex state)) 0,
            correct :=
              (if isCorrect (matchAnswer rt (typedAnswer state)
                    (correctAnswers (questions state ! currentIndex state))
                    \<lparr>ignoreCase = Some True, ignoreAccents = Some True, allowTypoDistance = Some 1\<rparr>)
               then correct state + 1 else correct state),
            incorrect :=
              (if isCorrect (matchAnswer rt (typedAnswer state)
                    (correctAnswers (questions state ! currentIndex state))
                    \<lparr>ignoreCase = Some True, ignoreAccents = Some True, allowTypoDistance = Some 1\<rparr>)
               then incorrect state else incorrect state + 1),
            showingResult := True\<rparr>
         else state)
      else if length (key_name event) = 1 \<and> \<not> key_ctrl event \<and> \<not> key_meta event then
        state\<lparr>typedAnswer := typedAnswer state @ key_name event\<rparr>
      else if toLowerCase rt (key_name event) = lit ''space'' then
        state\<lparr>typedAnswer := typedAnswer state @ lit '' ''\<rparr>
      else state)"
  unfolding handleTypeAnswerKey_def Let_def by (rule refl)

lemma handleMultipleChoiceKey_eq:
  "handleMultipleChoiceKey rt event state =
     (if between (lit ''1'') (lit ''4'') (toLowerCase rt (key_name event)) then
        confirmOption state (map_option (\<lambda>v. v - 1) (parseInt (toLowerCase rt (key_name event))))
      else if between (lit ''a'') (lit ''d'') (toLowerCase rt (key_name event)) then
        confirmOption state (map_option (\<lambda>v. v - 0x61) (charCodeAt0 (toLowerCase rt (key_name event))))
      else if toLowerCase rt (key_name event) = lit ''up'' then
        state\<lparr>selectedOption :=
          (if selectedOption state \<le> 0
           then int (length (optionsOf (questions state ! currentIndex state))) - 1
           else selectedOption state - 1)\<rparr>
      else if toLowerCase rt (key_name event) = lit ''down'' then
        state\<lparr>selectedOption :=
          (if selectedOption state \<ge> int (length (optionsOf (questions state ! currentIndex state))) - 1
           then 0 else selectedOption state + 1)\<rparr>
      else if (toLowerCase rt (key_name event) = lit ''return'' \<or>
               toLowerCase rt (key_name event) = lit ''enter'') \<and> selectedOption state \<ge> 0 then
        confirmOption state (Some (selectedOption state))
      else confirmOption state (Some (- 1)))"
  unfolding handleMultipleChoiceKey_def Let_def by (rule refl)

lemma confirmOption_eq:
  "confirmOption state (Some k) =
     (if 0 \<le> k \<and> k < int (length (optionsOf (questions state ! currentIndex state))) \<and>
         \<not> answered state then
        state
        \<lparr>selectedOption := k,
         answered := True,
         lastAnswerCorrect :=
           option_isCorrect (optionsOf (questions state ! currentIndex state) ! nat k),
         correctAnswer := element (correctAnswers (questions state ! currentIndex state)) 0,
         correct :=
           (if option_isCorrect (optionsOf (questions state ! currentIndex state) ! nat k)
            then correct state + 1 else correct state),
         incorrect :=
           (if option_isCorrect (optionsOf (questions state ! currentIndex state) ! nat k)
            then incorrect state else incorrect state + 1),
         showingResult := True\<rparr>
      else state)"
  "confirmOption state None = state"
  unfolding confirmOption_def Let_def by simp_all

subsection \<open>A session of one typed question, run to its end\<close>

lemmas key_eval = key_def latin1Runtime_def lit_def latin1LowerUnit_def






subsection \<open>Keys that request no option\<close>

lemma handleMultipleChoiceKey_requested:
  "toLowerCase rt (key_name e) \<noteq> lit ''up'' \<Longrightarrow> toLowerCase rt (key_name e) \<noteq> lit ''down'' \<Longrightarrow>
   handleMultipleChoiceKey rt e s =
     confirmOption s (requestedOption (toLowerCase rt (key_name e)) (selectedOption s))"
  by (simp add: handleMultipleChoiceKey_eq requestedOption_def)

lemma confirmOption_out_of_range:
  "(case oi of None \<Rightarrow> True
    | Some k \<Rightarrow> k < 0 \<or> int (length (optionsOf (questions s ! currentIndex s))) \<le> k) \<Longrightarrow>
   confirmOption s oi = s"
  by (cases oi) (auto simp: confirmOption_eq)

lemma enter_not_direct:
  "\<not> between (lit ''1'') (lit ''4'') (lit ''return'')" "\<not> between (lit ''a'') (lit ''d'') (lit ''return'')"
  "\<not> between (lit ''1'') (lit ''4'') (lit ''enter'')" "\<not> between (lit ''a'') (lit ''d'') (lit ''enter'')"
  "lit ''return'' \<noteq> lit ''up''" "lit ''return'' \<noteq> lit ''down''"
  "lit ''enter'' \<noteq> lit ''up''" "lit ''enter'' \<noteq> lit ''down''"
  "lit ''return'' \<noteq> lit ''backspace''" "lit ''enter'' \<noteq> lit ''backspace''"
  by (simp_all add: between_def lit_def)

subsection \<open>Keys that finalise an answer, and keys that do not\<close>





lemma choice_backspace:
  "requestedOption (lit ''backspace'') v = Some 1"
  "handleKey latin1Runtime (key ''backspace'') (initialState [choiceQuestion]) =
     (initialState [choiceQuestion])
       \<lparr>selectedOption := 1, answered := True, lastAnswerCorrect := True,
        correctAnswer := Some (lit ''hola''), correct := 1, showingResult := True\<rparr>"
proof -
  show r: "requestedOption (lit ''backspace'') v = Some 1" for v
    by (simp add: requestedOption_def between_def charCodeAt0_def lit_def)
  have k: "toLowerCase latin1Runtime (key_name (key ''backspace'')) = lit ''backspace''"
    by (simp add: key_eval)
  have n: "lit ''backspace'' \<noteq> lit ''up''" "lit ''backspace'' \<noteq> lit ''down''"
    by (simp_all add: lit_def)
  have q: "mode choiceQuestion = MultipleChoice"
    "optionsOf choiceQuestion =
       [\<lparr>option_id = lit ''k3'', option_text = lit ''adios'', option_isCorrect = False\<rparr>,
        \<lparr>option_id = lit ''p7'', option_text = lit ''hola'', option_isCorrect = True\<rparr>]"
    "correctAnswers choiceQuestion = [lit ''hola'', lit ''buenas'']"
    by (simp_all add: choiceQuestion_def optionsOf_def)
  show "handleKey latin1Runtime (key ''backspace'') (initialState [choiceQuestion]) =
     (initialState [choiceQuestion])
       \<lparr>selectedOption := 1, answered := True, lastAnswerCorrect := True,
        correctAnswer := Some (lit ''hola''), correct := 1, showingResult := True\<rparr>"
    by (simp add: handleKey_awaiting handleMultipleChoiceKey_requested k n r confirmOption_eq
        initialState_def q element_def)
qed

subsection \<open>Claims about \<open>matchAnswer\<close>\<close>

text \<open>
  C1. The claim: the input and every accepted answer are trimmed, their runs of white space
  collapsed, lower-cased if \<open>ignoreCase\<close>, and stripped of accents if \<open>ignoreAccents\<close>, the
  last two steps whatever \<open>ignoreCase\<close> is. The code applies \<open>normalizeText\<close> only when
  \<open>ignoreCase\<close> is set and otherwise only trims, whatever \<open>ignoreAccents\<close> is. With \<open>ignoreCase = false\<close> and
  \<open>ignoreAccents = true\<close>, \<open>"cafe"\<close> with an acute accent on the e (\<open>U+00E9\<close>) against \<open>"cafe"\<close> and
  \<open>"a  b"\<close> against \<open>"a b"\<close> are equal under the normalisation of the claim, and
  \<open>matchAnswer\<close> finds no exact match: both are at distance 1.
\<close>

theorem matchAnswer_case_sensitive_skips_normalization:
  "normalizeForMatch rt False ia s = trim s \<and>
   specNormalize latin1Runtime False True (lit ''caf'' @ [0xE9]) =
     specNormalize latin1Runtime False True (lit ''cafe'') \<and>
   matchAnswer latin1Runtime (lit ''caf'' @ [0xE9]) [lit ''cafe'']
     \<lparr>ignoreCase = Some False, ignoreAccents = Some True, allowTypoDistance = Some 0\<rparr> =
     \<lparr>isCorrect = False, isExact = False, distance = enat 1, matchedAnswer = None\<rparr> \<and>
   specNormalize latin1Runtime False True (lit ''a  b'') =
     specNormalize latin1Runtime False True (lit ''a b'') \<and>
   matchAnswer latin1Runtime (lit ''a  b'') [lit ''a b'']
     \<lparr>ignoreCase = Some False, ignoreAccents = Some True, allowTypoDistance = Some 0\<rparr> =
     \<lparr>isCorrect = False, isExact = False, distance = enat 1, matchedAnswer = None\<rparr>"
proof (intro conjI)
  show "normalizeForMatch rt False ia s = trim s"
    by (simp add: normalizeForMatch_def)
  show "specNormalize latin1Runtime False True (lit ''caf'' @ [0xE9]) =
        specNormalize latin1Runtime False True (lit ''cafe'')"
    by (simp add: string_eval)
  show "matchAnswer latin1Runtime (lit ''caf'' @ [0xE9]) [lit ''cafe'']
          \<lparr>ignoreCase = Some False, ignoreAccents = Some True, allowTypoDistance = Some 0\<rparr> =
        \<lparr>isCorrect = False, isExact = False, distance = enat 1, matchedAnswer = None\<rparr>"
    by (simp add: string_eval match_eval del: matchLoop.simps(2))
  show "specNormalize latin1Runtime False True (lit ''a  b'') =
        specNormalize latin1Runtime False True (lit ''a b'')"
    by (simp add: string_eval)
  show "matchAnswer latin1Runtime (lit ''a  b'') [lit ''a b'']
          \<lparr>ignoreCase = Some False, ignoreAccents = Some True, allowTypoDistance = Some 0\<rparr> =
        \<lparr>isCorrect = False, isExact = False, distance = enat 1, matchedAnswer = None\<rparr>"
    by (simp add: string_eval match_eval del: matchLoop.simps(2))
qed

text \<open>
  C4. \<open>matchAnswer\<close> scans the accepted answers in order and returns at the first one whose
  normalised form equals the normalised input, with \<open>isCorrect = true\<close>, \<open>isExact = true\<close>,
  \<open>distance = 0\<close> and that answer as \<open>matchedAnswer\<close>, whatever the answers before it were.
\<close>

theorem matchAnswer_first_exact:
  assumes "find (\<lambda>a. normalizeForMatch rt (ignoreCaseOf opts) (ignoreAccentsOf opts) userInput =
                     normalizeForMatch rt (ignoreCaseOf opts) (ignoreAccentsOf opts) a)
             answers = Some answer"
  shows "matchAnswer rt userInput answers opts =
           \<lparr>isCorrect = True, isExact = True, distance = 0, matchedAnswer = Some answer\<rparr>"
  using assms by (simp add: matchAnswer_def Let_def matchLoop_exact)

text \<open>
  The example of the specification: the input \<open>"cafe"\<close> with an acute accent on the e,
  against that same string listed after the unaccented \<open>"cafe"\<close>, with
  \<open>{ignoreAccents: false}\<close>, is exact on the second entry.
\<close>

theorem matchAnswer_first_exact_witness:
  "matchAnswer latin1Runtime (lit ''caf'' @ [0xE9]) [lit ''cafe'', lit ''caf'' @ [0xE9]]
     \<lparr>ignoreCase = None, ignoreAccents = Some False, allowTypoDistance = None\<rparr> =
   \<lparr>isCorrect = True, isExact = True, distance = 0, matchedAnswer = Some (lit ''caf'' @ [0xE9])\<rparr>"
  using matchAnswer_first_exact [of latin1Runtime
      "\<lparr>ignoreCase = None, ignoreAccents = Some False, allowTypoDistance = None\<rparr>"
      "lit ''caf'' @ [0xE9]" "[lit ''cafe'', lit ''caf'' @ [0xE9]]" "lit ''caf'' @ [0xE9]"]
  by (simp add: string_eval ignoreCaseOf_def ignoreAccentsOf_def)

text \<open>
  C5. When the list of accepted answers is not empty and none matches exactly, the result
  carries the minimum of the edit distances to the accepted answers: \<open>distance\<close> is that
  minimum (also beyond the tolerance), \<open>isCorrect\<close> holds iff the minimum is at most
  \<open>allowTypoDistance\<close>, \<open>isExact\<close> is false, \<open>matchedAnswer\<close> is present iff the minimum is
  within the tolerance, and it then is an accepted answer at that minimum distance.
\<close>

theorem matchAnswer_fuzzy_minimum:
  fixes rt userInput answers opts
  defines "nrm \<equiv> normalizeForMatch rt (ignoreCaseOf opts) (ignoreAccentsOf opts)"
  defines "dst \<equiv> (\<lambda>a. lev (nrm userInput) (nrm a))"
  defines "dmin \<equiv> Min (dst ` set answers)"
  defines "r \<equiv> matchAnswer rt userInput answers opts"
  assumes nonempty: "answers \<noteq> []"
    and inexact: "\<forall>a \<in> set answers. nrm userInput \<noteq> nrm a"
  shows "distance r = enat dmin \<and>
         isCorrect r = (int dmin \<le> allowTypoDistanceOf opts) \<and>
         \<not> isExact r \<and>
         (matchedAnswer r \<noteq> None) = (int dmin \<le> allowTypoDistanceOf opts) \<and>
         (\<forall>a. matchedAnswer r = Some a \<longrightarrow> a \<in> set answers \<and> dst a = dmin)"
proof -
  let ?best = "\<lparr>isCorrect = False, isExact = False, distance = \<infinity>, matchedAnswer = None\<rparr>"
  have r: "r = matchLoop rt (ignoreCaseOf opts) (ignoreAccentsOf opts)
                 (allowTypoDistanceOf opts) (nrm userInput) ?best answers"
    by (simp add: r_def matchAnswer_def nrm_def Let_def)
  from matchLoop_fuzzy [OF inexact [unfolded nrm_def], of "allowTypoDistanceOf opts" ?best]
  obtain a where a: "a \<in> set answers"
    and ra: "r = fuzzyResult (allowTypoDistanceOf opts) a (dst a)"
    and least: "\<forall>a' \<in> set answers. dst a \<le> dst a'"
    using nonempty unfolding r dst_def nrm_def
    by (cases answers) auto
  have "dmin = dst a"
    unfolding dmin_def using a least by (intro Min_eqI) auto
  then show ?thesis
    using a by (auto simp: ra fuzzyResult_def)
qed


theorem matchAnswer_fuzzy_minimum_witness:
  "distance (matchAnswer latin1Runtime (lit ''cat'') [lit ''dog'', lit ''cot'']
       \<lparr>ignoreCase = None, ignoreAccents = None, allowTypoDistance = None\<rparr>) = enat 1 \<and>
   isCorrect (matchAnswer latin1Runtime (lit ''cat'') [lit ''dog'', lit ''cot'']
       \<lparr>ignoreCase = None, ignoreAccents = None, allowTypoDistance = None\<rparr>) \<and>
   matchedAnswer (matchAnswer latin1Runtime (lit ''cat'') [lit ''dog'', lit ''cot'']
       \<lparr>ignoreCase = None, ignoreAccents = None, allowTypoDistance = None\<rparr>) \<noteq> None \<and>
   distance (matchAnswer latin1Runtime (lit ''cat'') [lit ''dog'']
       \<lparr>ignoreCase = None, ignoreAccents = None, allowTypoDistance = None\<rparr>) = enat 3 \<and>
   \<not> isCorrect (matchAnswer latin1Runtime (lit ''cat'') [lit ''dog'']
       \<lparr>ignoreCase = None, ignoreAccents = None, allowTypoDistance = None\<rparr>) \<and>
   matchedAnswer (matchAnswer latin1Runtime (lit ''cat'') [lit ''dog'']
       \<lparr>ignoreCase = None, ignoreAccents = None, allowTypoDistance = None\<rparr>) = None"
proof -
  let ?o = "\<lparr>ignoreCase = None, ignoreAccents = None, allowTypoDistance = None\<rparr>"
  have o: "ignoreCaseOf ?o = True" "ignoreAccentsOf ?o = True" "allowTypoDistanceOf ?o = 1"
    by (simp_all add: ignoreCaseOf_def ignoreAccentsOf_def allowTypoDistanceOf_def)
  have n: "normalizeForMatch latin1Runtime True True (lit ''cat'') = lit ''cat''"
    "normalizeForMatch latin1Runtime True True (lit ''dog'') = lit ''dog''"
    "normalizeForMatch latin1Runtime True True (lit ''cot'') = lit ''cot''"
    by (simp_all add: string_eval)
  have l: "lev (lit ''cat'') (lit ''dog'') = 3" "lev (lit ''cat'') (lit ''cot'') = 1"
    by (simp_all add: lev_def lit_def)
  have d: "lit ''cat'' \<noteq> lit ''dog''" "lit ''cat'' \<noteq> lit ''cot''"
    by (simp_all add: lit_def)
  have two: "distance (matchAnswer latin1Runtime (lit ''cat'') [lit ''dog'', lit ''cot''] ?o) = enat 1 \<and>
        isCorrect (matchAnswer latin1Runtime (lit ''cat'') [lit ''dog'', lit ''cot''] ?o) \<and>
        matchedAnswer (matchAnswer latin1Runtime (lit ''cat'') [lit ''dog'', lit ''cot''] ?o) \<noteq> None"
    using matchAnswer_fuzzy_minimum [of "[lit ''dog'', lit ''cot'']" latin1Runtime ?o "lit ''cat''"]
    by (simp add: o n l d)
  have one: "distance (matchAnswer latin1Runtime (lit ''cat'') [lit ''dog''] ?o) = enat 3 \<and>
        \<not> isCorrect (matchAnswer latin1Runtime (lit ''cat'') [lit ''dog''] ?o) \<and>
        matchedAnswer (matchAnswer latin1Runtime (lit ''cat'') [lit ''dog''] ?o) = None"
    using matchAnswer_fuzzy_minimum [of "[lit ''dog'']" latin1Runtime ?o "lit ''cat''"]
    by (simp add: o n l d)
  from two one show ?thesis by simp
qed

text \<open>
  C10. On an empty list of accepted answers \<open>matchAnswer\<close> returns the initial \<open>bestMatch\<close>:
  not correct, not exact, distance \<open>Infinity\<close>, no matched answer.
\<close>

theorem matchAnswer_empty:
  "matchAnswer rt userInput [] opts =
     \<lparr>isCorrect = False, isExact = False, distance = \<infinity>, matchedAnswer = None\<rparr>"
  by (simp add: matchAnswer_def)

subsection \<open>Claims about the question generators\<close>

text \<open>
  C3. The claim: for every non-empty card list, every multiple-choice question has between
  2 and 4 options, exactly one of them correct, and every distractor is the text of a card
  other than the source card. The distractors are drawn from the cards whose \<open>id\<close> differs
  from the source card's, at most three of them (\<open>createQuestion_multiple_choice\<close>,
  \<open>generateQuestions_multiple_choice\<close>, \<open>generateQuestion_options\<close>); a list of a single
  card leaves none, and both generators return questions whose only option is the correct
  one.
\<close>

theorem single_card_question_has_one_option:
  "map (\<lambda>q. map_option length (options q))
       (fst (generateQuestions toString36 [c] LearnMultipleChoice g)) = [Some 1, Some 1] \<and>
   map (\<lambda>q. length (mc_options (gq_question q)))
       (fst (generateMultipleChoiceQuestionsFromCards toString36 [c]
               \<lparr>numOptions = None, bidirectional = None, shouldShuffle = None\<rparr> g)) = [1, 1]"
proof
  let ?qs = "fst (generateQuestions toString36 [c] LearnMultipleChoice g)"
  have "map (\<lambda>q. map_option length (options q)) ?qs = replicate (length ?qs) (Some 1)"
    by (rule map_const_all) (rule generateQuestions_single_card)
  then show "map (\<lambda>q. map_option length (options q)) ?qs = [Some 1, Some 1]"
    by (simp add: generateQuestions_length numeral_2_eq_2)
next
  let ?o = "\<lparr>numOptions = None, bidirectional = None, shouldShuffle = None\<rparr>"
  let ?qs = "fst (generateMultipleChoiceQuestionsFromCards toString36 [c] ?o g)"
  have "map (\<lambda>q. length (mc_options (gq_question q))) ?qs = replicate (length ?qs) 1"
    by (rule map_const_all) (rule generateMultipleChoice_single_card)
  then show "map (\<lambda>q. length (mc_options (gq_question q))) ?qs = [1, 1]"
    by (simp add: generateMultipleChoiceQuestionsFromCards_length bidirectionalOf_def numeral_2_eq_2)
qed

text \<open>
  C6. For \<open>N\<close> cards \<open>generateMultipleChoiceQuestionsFromCards\<close> returns \<open>2N\<close> questions when
  \<open>bidirectional\<close> is true (the default), one front to back and one back to front for each
  card, and \<open>N\<close> questions when it is false, one front to back for each card, whatever
  \<open>numOptions\<close> and \<open>shuffle\<close> are: the cards, directions and prompts of the questions are
  those of the cards in some order, and in the order of the cards, front to back first,
  when \<open>shuffle\<close> is false. \<open>generateQuestions\<close> of the learn command, which has no such
  option, returns \<open>2N\<close> questions, one in each direction for each card. Both return the
  empty list on no cards.
\<close>

theorem generator_cardinality:
  fixes toString36 cards opts g lm
  defines "generated \<equiv> fst (generateMultipleChoiceQuestionsFromCards toString36 cards opts g)"
  defines "unshuffled \<equiv>
    fst (generateMultipleChoiceQuestionsFromCards toString36 cards (opts\<lparr>shouldShuffle := Some False\<rparr>) g)"
  defines "learn \<equiv> fst (generateQuestions toString36 cards lm g)"
  defines "sides \<equiv> (\<lambda>q. (gq_card q, gq_direction q, mc_prompt (gq_question q)))"
  defines "forward \<equiv> (\<lambda>c. (c, FrontToBack, promptText FrontToBack c))"
  defines "backward \<equiv> (\<lambda>c. (c, BackToFront, promptText BackToFront c))"
  shows
  "length generated = (if bidirectionalOf opts then 2 * length cards else length cards) \<and>
   mset (map sides generated) =
     (if bidirectionalOf opts then mset (concat (map (\<lambda>c. [forward c, backward c]) cards))
      else mset (map forward cards)) \<and>
   map sides unshuffled =
     (if bidirectionalOf opts then concat (map (\<lambda>c. [forward c, backward c]) cards)
      else map forward cards) \<and>
   fst (generateMultipleChoiceQuestionsFromCards toString36 [] opts g) = [] \<and>
   length learn = 2 * length cards \<and>
   mset (map (\<lambda>q. (card q, direction q, prompt q)) learn) =
     mset (concat (map (\<lambda>c. [forward c, backward c]) cards)) \<and>
   fst (generateQuestions toString36 [] lm g) = []"
proof (intro conjI)
  show "length generated = (if bidirectionalOf opts then 2 * length cards else length cards)"
    unfolding generated_def by (rule generateMultipleChoiceQuestionsFromCards_length)
  have c: "concat (map (\<lambda>c. [forward c]) cards) = map forward cards"
    by (induction cards) simp_all
  show "mset (map sides generated) =
     (if bidirectionalOf opts then mset (concat (map (\<lambda>c. [forward c, backward c]) cards))
      else mset (map forward cards))"
    unfolding generated_def sides_def generateMultipleChoice_sides
    using c by (simp add: forward_def backward_def)
  show "map sides unshuffled =
     (if bidirectionalOf opts then concat (map (\<lambda>c. [forward c, backward c]) cards)
      else map forward cards)"
    unfolding unshuffled_def sides_def generateMultipleChoice_in_order
    using c by (simp add: forward_def backward_def)
  have "length (fst (generateMultipleChoiceQuestionsFromCards toString36 [] opts g)) = 0"
    by (simp add: generateMultipleChoiceQuestionsFromCards_length)
  then show "fst (generateMultipleChoiceQuestionsFromCards toString36 [] opts g) = []"
    by simp
  show "length learn = 2 * length cards"
    unfolding learn_def by (rule generateQuestions_length)
  show "mset (map (\<lambda>q. (card q, direction q, prompt q)) learn) =
     mset (concat (map (\<lambda>c. [forward c, backward c]) cards))"
    unfolding learn_def generateQuestions_sides by (simp add: forward_def backward_def)
  have "length (fst (generateQuestions toString36 [] lm g)) = 0"
    by (simp add: generateQuestions_length)
  then show "fst (generateQuestions toString36 [] lm g) = []"
    by simp
qed

text \<open>
  C7. The accepted answers of a question are the back text followed by the alternatives of
  the card in the direction front to back, and the front text alone in the direction back
  to front, in every mode and so for a type-answer question.
\<close>

theorem createQuestion_accepted_answers:
  "correctAnswers (fst (createQuestion toString36 c allCards FrontToBack md g)) =
     back_text (card_back c) # alternatives (card_back c) \<and>
   correctAnswers (fst (createQuestion toString36 c allCards BackToFront md g)) =
     [front_text (card_front c)]"
  by (simp add: createQuestion_def Let_def split_def)

subsection \<open>Claims about the session\<close>




text \<open>
  C8. While a question awaits its answer, these keys leave the whole state as it is: Enter
  on a typed answer that is empty once trimmed; Enter on a multiple-choice question with no
  option selected; and any key of a multiple-choice question, other than the two arrows,
  whose option index is not a number or lies outside \<open>0 .. options.length - 1\<close>.
\<close>

theorem invalid_actions_are_no_ops:
  assumes "currentIndex s < length (questions s)" and "\<not> showingResult s"
  shows
    "(mode (questions s ! currentIndex s) = TypeAnswer \<and>
      (toLowerCase rt (key_name e) = lit ''return'' \<or> toLowerCase rt (key_name e) = lit ''enter'') \<and>
      trim (typedAnswer s) = []
        \<longrightarrow> handleKey rt e s = s) \<and>
     (mode (questions s ! currentIndex s) = MultipleChoice \<and>
      (toLowerCase rt (key_name e) = lit ''return'' \<or> toLowerCase rt (key_name e) = lit ''enter'') \<and>
      selectedOption s < 0
        \<longrightarrow> handleKey rt e s = s) \<and>
     (mode (questions s ! currentIndex s) = MultipleChoice \<and>
      toLowerCase rt (key_name e) \<noteq> lit ''up'' \<and> toLowerCase rt (key_name e) \<noteq> lit ''down'' \<and>
      (case requestedOption (toLowerCase rt (key_name e)) (selectedOption s) of
         None \<Rightarrow> True
       | Some k \<Rightarrow> k < 0 \<or> int (length (optionsOf (questions s ! currentIndex s))) \<le> k)
        \<longrightarrow> handleKey rt e s = s)"
proof (intro conjI impI)
  assume "mode (questions s ! currentIndex s) = TypeAnswer \<and>
      (toLowerCase rt (key_name e) = lit ''return'' \<or> toLowerCase rt (key_name e) = lit ''enter'') \<and>
      trim (typedAnswer s) = []"
  then show "handleKey rt e s = s"
    using assms enter_not_direct
    by (auto simp: handleKey_awaiting handleTypeAnswerKey_eq)
next
  assume a: "mode (questions s ! currentIndex s) = MultipleChoice \<and>
      (toLowerCase rt (key_name e) = lit ''return'' \<or> toLowerCase rt (key_name e) = lit ''enter'') \<and>
      selectedOption s < 0"
  then have "requestedOption (toLowerCase rt (key_name e)) (selectedOption s) = Some (- 1)"
    using enter_not_direct by (auto simp: requestedOption_def)
  moreover have "toLowerCase rt (key_name e) \<noteq> lit ''up''" "toLowerCase rt (key_name e) \<noteq> lit ''down''"
    using a enter_not_direct by auto
  ultimately show "handleKey rt e s = s"
    using assms a
    by (simp add: handleKey_awaiting handleMultipleChoiceKey_requested confirmOption_out_of_range)
next
  assume a: "mode (questions s ! currentIndex s) = MultipleChoice \<and>
      toLowerCase rt (key_name e) \<noteq> lit ''up'' \<and> toLowerCase rt (key_name e) \<noteq> lit ''down'' \<and>
      (case requestedOption (toLowerCase rt (key_name e)) (selectedOption s) of
         None \<Rightarrow> True
       | Some k \<Rightarrow> k < 0 \<or> int (length (optionsOf (questions s ! currentIndex s))) \<le> k)"
  then show "handleKey rt e s = s"
    using assms
    by (simp add: handleKey_awaiting handleMultipleChoiceKey_requested confirmOption_out_of_range)
qed

theorem invalid_actions_are_no_ops_witness:
  "handleKey latin1Runtime (key ''return'') ((initialState [typedQuestion])\<lparr>typedAnswer := lit ''  ''\<rparr>) =
     (initialState [typedQuestion])\<lparr>typedAnswer := lit ''  ''\<rparr> \<and>
   handleKey latin1Runtime (key ''return'') (initialState [choiceQuestion]) =
     initialState [choiceQuestion] \<and>
   handleKey latin1Runtime (key ''3'') (initialState [choiceQuestion]) =
     initialState [choiceQuestion]"
proof -
  let ?t = "(initialState [typedQuestion])\<lparr>typedAnswer := lit ''  ''\<rparr>"
  let ?c = "initialState [choiceQuestion]"
  have t: "currentIndex ?t < length (questions ?t)" "\<not> showingResult ?t"
    "mode (questions ?t ! currentIndex ?t) = TypeAnswer" "trim (typedAnswer ?t) = []"
    by (simp_all add: initialState_def typedQuestion_def trim_def lit_def isWhiteSpace_def)
  have c: "currentIndex ?c < length (questions ?c)" "\<not> showingResult ?c"
    "mode (questions ?c ! currentIndex ?c) = MultipleChoice" "selectedOption ?c < 0"
    "int (length (optionsOf (questions ?c ! currentIndex ?c))) = 2"
    by (simp_all add: initialState_def choiceQuestion_def optionsOf_def)
  have k: "toLowerCase latin1Runtime (key_name (key ''return'')) = lit ''return''"
    "toLowerCase latin1Runtime (key_name (key ''3'')) = lit ''3''"
    by (simp_all add: key_eval)
  have r: "requestedOption (lit ''3'') (selectedOption ?c) = Some 2"
    "lit ''3'' \<noteq> lit ''up''" "lit ''3'' \<noteq> lit ''down''"
    by (simp_all add: requestedOption_def between_def parseInt_def isDigit_def digitsValue_def lit_def)
  have one: "handleKey latin1Runtime (key ''return'') ?t = ?t"
    using invalid_actions_are_no_ops [OF t(1,2), of latin1Runtime "key ''return''"] t(3,4) k(1)
    by blast
  have two: "handleKey latin1Runtime (key ''return'') ?c = ?c"
    using invalid_actions_are_no_ops [OF c(1,2), of latin1Runtime "key ''return''"] c(3,4) k(1)
    by blast
  have three: "handleKey latin1Runtime (key ''3'') ?c = ?c"
    using invalid_actions_are_no_ops [OF c(1,2), of latin1Runtime "key ''3''"] c(3,5) k(2) r
    by simp
  from one two three show ?thesis by (intro conjI)
qed

subsection \<open>Claim about the summary\<close>

lemma percentage_no_answers: "total state = 0 \<Longrightarrow> percentage state = 0"
  by (simp add: percentage_def)

text \<open>A session of one question, answered correctly, shows 100 percent.\<close>

lemma divide_1_by_1: "divideCounters (Suc 0) (Suc 0) = (4503599627370496, - 52)"
proof -
  have up: "scaleUp (Suc 0) (Suc 0) 0 = (4503599627370496, Suc 0, - 52)"
    by (simp add: scaleUp_step scaleUp_stop)
  have down: "scaleDown 4503599627370496 (Suc 0) (- 52) = (4503599627370496, Suc 0, - 52)"
    by (simp add: scaleDown_step scaleDown_stop)
  show ?thesis
    by (simp add: divideCounters_def toDouble_eq up down roundHalfEven_def Let_def)
qed

lemma times_100_of_1: "timesInteger (4503599627370496, - 52) 100 = (7036874417766400, - 46)"
proof -
  have up: "scaleUp 450359962737049600 (Suc 0) (- 52) = (450359962737049600, Suc 0, - 52)"
    by (simp add: scaleUp_step scaleUp_stop)
  have down: "scaleDown 450359962737049600 (Suc 0) (- 52) = (450359962737049600, 64, - 46)"
    by (simp add: scaleDown_step scaleDown_stop)
  show ?thesis
    by (simp add: timesInteger_def toDouble_eq up down roundHalfEven_def Let_def)
qed

lemma percentage_all_correct:
  "percentage ((initialState qs)\<lparr>correct := 1, incorrect := 0\<rparr>) = 100"
proof -
  have "percentage ((initialState qs)\<lparr>correct := 1, incorrect := 0\<rparr>) =
        Math_round (timesInteger (divideCounters (Suc 0) (Suc 0)) 100)"
    by (simp add: percentage_def total_def)
  then show ?thesis
    by (simp only: divide_1_by_1 times_100_of_1) (simp add: Math_round_def)
qed

lemma divide_23_by_40: "divideCounters 23 40 = (5179139571476070, - 53)"
proof -
  have up: "scaleUp 23 40 0 = (207165582859042816, 40, - 53)"
    by (simp add: scaleUp_step scaleUp_stop)
  have down: "scaleDown 207165582859042816 40 (- 53) = (207165582859042816, 40, - 53)"
    by (simp add: scaleDown_step scaleDown_stop)
  show ?thesis
    by (simp add: divideCounters_def toDouble_eq up down roundHalfEven_def Let_def)
qed

lemma times_100: "timesInteger (5179139571476070, - 53) 100 = (8092405580431359, - 47)"
proof -
  have up: "scaleUp 517913957147607000 (Suc 0) (- 53) = (517913957147607000, Suc 0, - 53)"
    by (simp add: scaleUp_step scaleUp_stop)
  have down: "scaleDown 517913957147607000 (Suc 0) (- 53) = (517913957147607000, 64, - 47)"
    by (simp add: scaleDown_step scaleDown_stop)
  show ?thesis
    by (simp add: timesInteger_def toDouble_eq up down roundHalfEven_def Let_def)
qed

lemma round_57: "Math_round (8092405580431359, - 47) = 57"
  by (simp add: Math_round_def)

text \<open>
  C9. The claim: \<open>total = correct + incorrect\<close>, and the percentage is
  \<open>round(100 * correct / total)\<close> when \<open>total > 0\<close> and \<open>0\<close> otherwise. The total and the case
  \<open>total = 0\<close> are as claimed (\<open>total_def\<close>, \<open>percentage_no_answers\<close>). The percentage is
  computed as \<open>Math.round((correct / total) * 100)\<close> on doubles: with 23 correct answers out
  of 40 the quotient is the double just below \<open>0.575\<close>, its product with 100 is the double
  \<open>8092405580431359 * 2^-47\<close>, just below \<open>57.5\<close>, and the percentage shown is 57, where
  \<open>100 * 23 / 40 = 57.5\<close> rounds to 58.
\<close>

theorem percentage_of_23_in_40:
  "total ((initialState qs)\<lparr>correct := 23, incorrect := 17\<rparr>) = 40 \<and>
   percentage ((initialState qs)\<lparr>correct := 23, incorrect := 17\<rparr>) = 57 \<and>
   specPercentage 23 40 = 58"
proof (intro conjI)
  show t: "total ((initialState qs)\<lparr>correct := 23, incorrect := 17\<rparr>) = 40"
    by (simp add: total_def)
  have "percentage ((initialState qs)\<lparr>correct := 23, incorrect := 17\<rparr>) =
        Math_round (timesInteger (divideCounters 23 40) 100)"
    unfolding percentage_def t by simp
  then show "percentage ((initialState qs)\<lparr>correct := 23, incorrect := 17\<rparr>) = 57"
    by (simp only: divide_23_by_40 times_100 round_57)
  show "specPercentage 23 40 = 58"
    by (simp add: specPercentage_def)
qed

end
